theory Spec2Isabelle
  imports Main
begin

section \<open>JavaScript strings\<close>

text \<open>
  A JavaScript string is modelled as a \<^typ>\<open>string\<close>: a list of code units, here restricted
  to the code units below 256.  \<open>is_ws\<close> is the set \<open>String.prototype.trim\<close> strips and the
  regular expression class \<open>\s\<close> matches (WhiteSpace and LineTerminator of ECMA-262), cut
  down to that range: TAB, LF, VT, FF, CR, SPACE and NO-BREAK SPACE.
\<close>

definition is_ws :: "char \<Rightarrow> bool" where
  "is_ws c = (c \<in> set [CHR 0x09, CHR 0x0A, CHR 0x0B, CHR 0x0C, CHR 0x0D, CHR 0x20, CHR 0xA0])"

definition trim :: "string \<Rightarrow> string" where
  "trim s = rev (dropWhile is_ws (rev (dropWhile is_ws s)))"

definition startsWith :: "string \<Rightarrow> string \<Rightarrow> bool" where
  "startsWith s p = (take (length p) s = p)"

text \<open>\<open>Number.prototype.toString\<close> on a non-negative integer: its decimal digits.\<close>

definition digit_char :: "nat \<Rightarrow> char" where
  "digit_char d = ''0123456789'' ! d"

fun toString :: "nat \<Rightarrow> string" where
  "toString n = (if n < 10 then [digit_char n] else toString (n div 10) @ [digit_char (n mod 10)])"

declare toString.simps [simp del]

section \<open>The document: the children of the contenteditable element\<close>

text \<open>
  The editor element (\<open>editorRef.current\<close>) holds a forest of DOM nodes: text nodes and
  elements with a tag name, attributes and children.  The model describes the mounted
  component, where \<open>editorRef.current\<close> is that element; the handlers below are attached to
  elements the same component renders.
\<close>

datatype node = TextNode string | Element string "(string \<times> string) list" "node list"

fun textContent :: "node \<Rightarrow> string" where
  "textContent (TextNode t) = t"
| "textContent (Element tg as cs) = concat (map textContent cs)"

text \<open>\<open>editor.textContent\<close>: the text of all text nodes below the editor, in document order.\<close>

definition doc_text :: "node list \<Rightarrow> string" where
  "doc_text d = concat (map textContent d)"

text \<open>
  The first node in document order (pre-order) that satisfies \<open>P\<close>, as
  \<open>getElementById\<close> and \<open>querySelector\<close> return it.
\<close>

fun find_first :: "(node \<Rightarrow> bool) \<Rightarrow> node list \<Rightarrow> node option" where
  "find_first P [] = None"
| "find_first P (TextNode t # ns) =
     (if P (TextNode t) then Some (TextNode t) else find_first P ns)"
| "find_first P (Element tg as cs # ns) =
     (if P (Element tg as cs) then Some (Element tg as cs)
      else case find_first P cs of
             Some n \<Rightarrow> Some n
           | None \<Rightarrow> find_first P ns)"

text \<open>
  The forest with the first node that satisfies \<open>P\<close> replaced by the nodes \<open>new\<close>:
  \<open>parent.insertBefore(x, n)\<close> for each \<open>x\<close> of \<open>new\<close> followed by \<open>parent.removeChild(n)\<close>
  (with \<open>new = []\<close> it is \<open>removeChild\<close> or \<open>n.remove()\<close> alone).  \<open>None\<close> when no node
  satisfies \<open>P\<close>.
\<close>

fun replace_first :: "(node \<Rightarrow> bool) \<Rightarrow> node list \<Rightarrow> node list \<Rightarrow> node list option" where
  "replace_first P new [] = None"
| "replace_first P new (TextNode t # ns) =
     (if P (TextNode t) then Some (new @ ns)
      else map_option ((#) (TextNode t)) (replace_first P new ns))"
| "replace_first P new (Element tg as cs # ns) =
     (if P (Element tg as cs) then Some (new @ ns)
      else case replace_first P new cs of
             Some cs' \<Rightarrow> Some (Element tg as cs' # ns)
           | None \<Rightarrow> map_option ((#) (Element tg as cs)) (replace_first P new ns))"

text \<open>The number of nodes of the forest, at any depth, that satisfy \<open>P\<close>.\<close>

fun count_nodes :: "(node \<Rightarrow> bool) \<Rightarrow> node list \<Rightarrow> nat" where
  "count_nodes P [] = 0"
| "count_nodes P (TextNode t # ns) = (if P (TextNode t) then 1 else 0) + count_nodes P ns"
| "count_nodes P (Element tg as cs # ns) =
     (if P (Element tg as cs) then 1 else 0) + count_nodes P cs + count_nodes P ns"

text \<open>
  A boundary point inside the editor: the path of child indices from the editor element
  down to the container node, and the offset in the container (a character offset in a
  text node, a child index in an element).  \<open>insert_at\<close> puts the nodes \<open>new\<close> there, as
  \<open>Range.insertNode\<close> does for one node: a text container is split at the offset.
  \<open>None\<close> when the path and offset are not a boundary point of the forest.
\<close>

fun insert_at :: "nat list \<Rightarrow> nat \<Rightarrow> node list \<Rightarrow> node list \<Rightarrow> node list option" where
  "insert_at [] off new d =
     (if off \<le> length d then Some (take off d @ new @ drop off d) else None)"
| "insert_at (i # p) off new d =
     (if i < length d then
        (case d ! i of
           TextNode t \<Rightarrow>
             (if p = [] \<and> off \<le> length t
              then Some (take i d @ [TextNode (take off t)] @ new @ [TextNode (drop off t)] @ drop (Suc i) d)
              else None)
         | Element tg as cs \<Rightarrow>
             map_option (\<lambda>cs'. take i d @ [Element tg as cs'] @ drop (Suc i) d) (insert_at p off new cs))
      else None)"

definition insertNode :: "nat list \<Rightarrow> nat \<Rightarrow> node \<Rightarrow> node list \<Rightarrow> node list option" where
  "insertNode p off n d = insert_at p off [n] d"

text \<open>The Position Marker: \<open>span\<close> with id \<open>paste-position-marker\<close>, and its lookup by id.\<close>

definition tempMarker :: node where
  "tempMarker = Element ''span'' [(''id'', ''paste-position-marker'')] []"

fun is_marker :: "node \<Rightarrow> bool" where
  "is_marker (TextNode t) = False"
| "is_marker (Element tg as cs) = (map_of as ''id'' = Some ''paste-position-marker'')"

text \<open>The selector \<open>span[data-ref-id="id"]\<close> of \<open>findSpanById\<close>.\<close>

fun is_ref_span :: "string \<Rightarrow> node \<Rightarrow> bool" where
  "is_ref_span i (TextNode t) = False"
| "is_ref_span i (Element tg as cs) = (tg = ''span'' \<and> map_of as ''data-ref-id'' = Some i)"

text \<open>
  \<open>querySelectorAll('span[data-ref-id]')\<close> mapped to the attribute's value: the values of
  \<open>data-ref-id\<close> on the span elements of the forest, in document order.
\<close>

fun span_ref_ids :: "node list \<Rightarrow> string list" where
  "span_ref_ids [] = []"
| "span_ref_ids (TextNode t # ns) = span_ref_ids ns"
| "span_ref_ids (Element tg as cs # ns) =
     (if tg = ''span'' then (case map_of as ''data-ref-id'' of Some v \<Rightarrow> [v] | None \<Rightarrow> []) else [])
     @ span_ref_ids cs @ span_ref_ids ns"

text \<open>
  The set \<open>currentRefs\<close> that \<open>handleEditorInput\<close> builds: \<open>if (refId) currentRefs.add(refId)\<close>
  leaves the empty attribute value out.
\<close>

definition currentRefs :: "node list \<Rightarrow> string set" where
  "currentRefs d = set (filter (\<lambda>v. v \<noteq> []) (span_ref_ids d))"

section \<open>The editor component with reference tracking and activity sampling\<close>

text \<open>
  The \<open>Editor\<close> component that follows the request handler in
  \<open>src/pages/api/generate-questions.ts\<close>.  Its React state and refs are the fields of the
  record; \<open>doc\<close> is the content of the editor element.  The counters and lengths are
  JavaScript numbers holding non-negative integers, modelled as \<^typ>\<open>nat\<close>.  \<open>requests\<close> and
  \<open>alerts\<close> record what the component sends to \<open>/api/generate-questions\<close> and shows with
  \<open>alert\<close>.
\<close>

record reference =
  ref_id :: string
  ref_text :: string
  ref_citation :: string

record question =
  q_id :: string
  q_text :: string

record editor_state =
  charAmount :: nat
  backspaceAmount :: nat
  charSeries :: "nat list"
  backspaceSeries :: "nat list"
  references :: "reference list"
  selectedText :: string
  isDialogOpen :: bool
  citation :: string
  doc :: "node list"
  oldTextLength :: nat
  questions :: "question list"
  isQuestionsDialogOpen :: bool
  isGeneratingQuestions :: bool
  requests :: "string list"
  alerts :: "string list"

definition initial_state :: editor_state where
  "initial_state =
     \<lparr>charAmount = 0, backspaceAmount = 0, charSeries = [], backspaceSeries = [],
      references = [], selectedText = [], isDialogOpen = False, citation = [],
      doc = [], oldTextLength = 0, questions = [], isQuestionsDialogOpen = False,
      isGeneratingQuestions = False, requests = [], alerts = []\<rparr>"

subsection \<open>Clearing the document, the sampler\<close>

definition handleClearDocument :: "editor_state \<Rightarrow> editor_state" where
  "handleClearDocument s =
     s\<lparr>charAmount := 0, backspaceAmount := 0, charSeries := [], backspaceSeries := [],
       doc := [], references := []\<rparr>"

text \<open>One tick of the \<open>setInterval\<close> callback.\<close>

definition sampler_tick :: "editor_state \<Rightarrow> editor_state" where
  "sampler_tick s =
     s\<lparr>charSeries := charSeries s @ [charAmount s],
       backspaceSeries := backspaceSeries s @ [backspaceAmount s]\<rparr>"

subsection \<open>Paste\<close>

text \<open>
  The paste event as the handler reads it: \<open>e.clipboardData\<close> (possibly null) with its
  \<open>text/plain\<close> payload, and \<open>window.getSelection()\<close>: null, a selection without a range
  (where \<open>getRangeAt(0)\<close> throws and ends the handler), or a range that starts at a path and
  offset in the editor.  The browser's ranges start at boundary points of the document; for
  a path and offset that are none, \<open>insertNode\<close> is taken to throw, which ends the handler
  after \<open>setSelectedText\<close>.  A handler that returns at a blank text leaves the paste to the
  browser, whose edit arrives as an \<open>input\<close> event.
\<close>

datatype clipboard = NoClipboardData | ClipboardText string

datatype selection = NoSelection | NoRange | RangeAt "nat list" nat

definition handleEditorPaste :: "clipboard \<Rightarrow> selection \<Rightarrow> editor_state \<Rightarrow> editor_state" where
  "handleEditorPaste cb sel s =
     (case cb of
        NoClipboardData \<Rightarrow> s
      | ClipboardText t \<Rightarrow>
          if trim t = [] then s
          else (case sel of
                  NoRange \<Rightarrow> s
                | NoSelection \<Rightarrow>
                    s\<lparr>selectedText := t, doc := doc s @ [tempMarker], isDialogOpen := True\<rparr>
                | RangeAt p off \<Rightarrow>
                    (case insertNode p off tempMarker (doc s) of
                       None \<Rightarrow> s\<lparr>selectedText := t\<rparr>
                     | Some d \<Rightarrow> s\<lparr>selectedText := t, doc := d, isDialogOpen := True\<rparr>)))"

subsection \<open>Document changes\<close>

text \<open>
  The \<open>input\<close> event handler.  \<open>inputType\<close> is the event's \<open>inputType\<close>, \<open>len\<close> is
  \<open>editor.innerText.length\<close> as the browser reports it after the edit; \<open>doc s\<close> is the
  document after the edit.
\<close>

definition handleEditorInput :: "string \<Rightarrow> nat \<Rightarrow> editor_state \<Rightarrow> editor_state" where
  "handleEditorInput inputType len s =
     (let delta = (if oldTextLength s \<le> len then len - oldTextLength s else oldTextLength s - len);
          s1 = s\<lparr>oldTextLength := len\<rparr>;
          s2 = (if inputType = ''insertText'' then s1\<lparr>charAmount := charAmount s1 + delta\<rparr>
                else if startsWith inputType ''delete''
                then s1\<lparr>backspaceAmount := backspaceAmount s1 + delta\<rparr>
                else s1)
      in s2\<lparr>references := filter (\<lambda>r. ref_id r \<in> currentRefs (doc s2)) (references s2)\<rparr>)"

subsection \<open>The reference dialog\<close>

text \<open>
  The effect with dependencies \<open>[isDialogOpen, selectedText, references]\<close>.  The marker found
  by \<open>getElementById\<close> is attached, so \<open>marker.parentNode\<close> is not null.  The cursor the
  effect then sets is browser state outside the record.
\<close>

definition dialogCloseEffect :: "editor_state \<Rightarrow> editor_state" where
  "dialogCloseEffect s =
     (if isDialogOpen s then s
      else (case replace_first is_marker [] (doc s) of
              None \<Rightarrow> s
            | Some d \<Rightarrow>
                (let wasAddedAsReference = (\<exists>r \<in> set (references s). ref_text r = selectedText s)
                 in if wasAddedAsReference then s else s\<lparr>doc := d\<rparr>)))"

text \<open>
  \<open>handleAddReference\<close>; \<open>now\<close> is \<open>Date.now()\<close>, \<open>sel\<close> is the selection its fallback reads
  when no marker is in the document.  Where the fallback's \<open>insertNode\<close> throws, the
  handler ends after \<open>setReferences\<close>.
\<close>

definition handleAddReference :: "nat \<Rightarrow> selection \<Rightarrow> editor_state \<Rightarrow> editor_state" where
  "handleAddReference now sel s =
     (if trim (citation s) = [] \<or> trim (selectedText s) = [] then s
      else
        (let newReference =
               \<lparr>ref_id = toString now, ref_text = selectedText s, ref_citation = citation s\<rparr>;
             span = Element ''span''
                      [(''class'', ''text-blue-600 font-medium''), (''data-ref-id'', ref_id newReference)]
                      [TextNode (selectedText s)];
             spaceNode = TextNode [CHR 0xA0];
             textNode = Element ''span'' [(''data-normal'', ''true'')] [];
             s1 = s\<lparr>references := references s @ [newReference]\<rparr>;
             inserted =
               (case replace_first is_marker [span, spaceNode, textNode] (doc s) of
                  Some d \<Rightarrow> Some d
                | None \<Rightarrow>
                    (case sel of
                       RangeAt p off \<Rightarrow> insert_at p off [span, spaceNode, textNode] (doc s)
                     | _ \<Rightarrow> Some (doc s @ [span, spaceNode, textNode])))
         in case inserted of
              None \<Rightarrow> s1
            | Some d \<Rightarrow> s1\<lparr>doc := d, isDialogOpen := False, citation := []\<rparr>))"

definition handleCancelDialog :: "editor_state \<Rightarrow> editor_state" where
  "handleCancelDialog s = s\<lparr>isDialogOpen := False, citation := []\<rparr>"

definition handleRemoveReference :: "string \<Rightarrow> editor_state \<Rightarrow> editor_state" where
  "handleRemoveReference i s =
     (let s1 = s\<lparr>references := filter (\<lambda>r. ref_id r \<noteq> i) (references s)\<rparr>
      in case replace_first (is_ref_span i) [] (doc s1) of
           None \<Rightarrow> s1
         | Some d \<Rightarrow> s1\<lparr>doc := d\<rparr>)"

subsection \<open>Question generation\<close>

text \<open>
  \<open>handleGenerateQuestions\<close> up to its \<open>await fetch(...)\<close>.  \<open>editor_text\<close> is
  \<open>editor.textContent || editor.innerText\<close>, with \<open>innerText\<close> what the browser reports for
  \<open>editor.innerText\<close>.  The handler reads no
  state before it sends the request.
\<close>

definition editor_text :: "string \<Rightarrow> editor_state \<Rightarrow> string" where
  "editor_text innerText s = (if doc_text (doc s) = [] then innerText else doc_text (doc s))"

definition handleGenerateQuestions :: "string \<Rightarrow> editor_state \<Rightarrow> editor_state" where
  "handleGenerateQuestions innerText s =
     (let text = editor_text innerText s
      in if text = [] \<or> length (trim text) < 30
         then s\<lparr>alerts := alerts s @ [''Please enter more text before generating questions.'']\<rparr>
         else s\<lparr>isGeneratingQuestions := True, questions := [], isQuestionsDialogOpen := True,
                requests := requests s @ [text]\<rparr>)"

text \<open>
  How a request settles: \<open>fetch\<close> or \<open>response.json()\<close> throws (an \<open>Error\<close> with its
  message, or another value); a response that is not ok, with \<open>data.error\<close> and
  \<open>data.details\<close>; or an ok response, with \<open>data.questions\<close> when it is an array.
\<close>

datatype fetch_outcome =
    Rejected "string option"
  | NotOk "string option" "string option"
  | OkBody "string list option"

definition js_string :: "string option \<Rightarrow> string" where
  "js_string v = (case v of None \<Rightarrow> ''undefined'' | Some x \<Rightarrow> x)"

definition truthy :: "string option \<Rightarrow> bool" where
  "truthy v = (case v of None \<Rightarrow> False | Some x \<Rightarrow> x \<noteq> [])"

definition formatQuestions :: "nat \<Rightarrow> string list \<Rightarrow> question list" where
  "formatQuestions now qs =
     map (\<lambda>(index, q). \<lparr>q_id = ''q-'' @ toString now @ ''-'' @ toString index, q_text = q\<rparr>)
       (zip [0 ..< length qs] qs)"

text \<open>The rest of \<open>handleGenerateQuestions\<close>, after the request settled; \<open>now\<close> is \<open>Date.now()\<close>.\<close>

definition questionsSettled :: "nat \<Rightarrow> fetch_outcome \<Rightarrow> editor_state \<Rightarrow> editor_state" where
  "questionsSettled now r s =
     (let s1 =
            (case r of
               Rejected None \<Rightarrow>
                 s\<lparr>alerts := alerts s @ [''Failed to generate questions. Please try again later.'']\<rparr>
             | Rejected (Some m) \<Rightarrow> s\<lparr>alerts := alerts s @ [m]\<rparr>
             | NotOk e d \<Rightarrow>
                 s\<lparr>alerts := alerts s @
                   [if truthy d then ''Error: '' @ js_string e @ '' - '' @ js_string d
                    else ''Error: '' @ (if truthy e then js_string e else ''Failed to generate questions'')]\<rparr>
             | OkBody None \<Rightarrow>
                 s\<lparr>alerts := alerts s @ [''Invalid response format: missing questions array'']\<rparr>
             | OkBody (Some qs) \<Rightarrow> s\<lparr>questions := formatQuestions now qs\<rparr>)
      in s1\<lparr>isGeneratingQuestions := False\<rparr>)"

subsection \<open>The events of the component\<close>

text \<open>
  After a handler's state updates React renders and runs \<open>dialogCloseEffect\<close> when one of its
  dependencies changed: \<open>isDialogOpen\<close>, \<open>selectedText\<close>, or the \<open>references\<close> array
  (compared by identity: \<open>newRefs\<close> says that \<open>setReferences\<close> stored a new array).  The
  state updates of one handler are rendered together.
\<close>

definition commitRender :: "bool \<Rightarrow> editor_state \<Rightarrow> editor_state \<Rightarrow> editor_state" where
  "commitRender newRefs old new =
     (if newRefs \<or> isDialogOpen new \<noteq> isDialogOpen old \<or> selectedText new \<noteq> selectedText old
      then dialogCloseEffect new else new)"

text \<open>
  Every event the component handles.  \<open>EditorInput d inputType len\<close> is the browser's edit
  of the editor content to \<open>d\<close> followed by the \<open>input\<close> event; \<open>DismissDialog\<close> is the
  dialog's \<open>onOpenChange(false)\<close>; \<open>ExportToCsv\<close> reads the series and changes nothing.
\<close>

datatype action =
    Paste clipboard selection
  | TypeCitation string
  | AddReference nat selection
  | CancelDialog
  | DismissDialog
  | EditorInput "node list" string nat
  | RemoveReference string
  | ClearDocument
  | SamplerTick
  | GenerateQuestions string
  | QuestionsSettled nat fetch_outcome
  | CloseQuestionsDialog
  | ExportToCsv

fun step :: "action \<Rightarrow> editor_state \<Rightarrow> editor_state" where
  "step (Paste cb sel) s = commitRender False s (handleEditorPaste cb sel s)"
| "step (TypeCitation c) s = s\<lparr>citation := c\<rparr>"
| "step (AddReference now sel) s =
     commitRender (trim (citation s) \<noteq> [] \<and> trim (selectedText s) \<noteq> []) s
       (handleAddReference now sel s)"
| "step CancelDialog s = commitRender False s (handleCancelDialog s)"
| "step DismissDialog s = commitRender False s (s\<lparr>isDialogOpen := False\<rparr>)"
| "step (EditorInput d inputType len) s =
     commitRender True s (handleEditorInput inputType len (s\<lparr>doc := d\<rparr>))"
| "step (RemoveReference i) s = commitRender True s (handleRemoveReference i s)"
| "step ClearDocument s = commitRender True s (handleClearDocument s)"
| "step SamplerTick s = sampler_tick s"
| "step (GenerateQuestions innerText) s = handleGenerateQuestions innerText s"
| "step (QuestionsSettled now r) s = questionsSettled now r s"
| "step CloseQuestionsDialog s = s\<lparr>isQuestionsDialogOpen := False\<rparr>"
| "step ExportToCsv s = s"

subsection \<open>The paste flows\<close>

text \<open>
  Where the paste handler puts the marker: at the start of the selection's range, or at
  the end of the editor when there is no selection.  A selection is usable when that point
  is a boundary point of the document.
\<close>

definition caret :: "selection \<Rightarrow> node list \<Rightarrow> (nat list \<times> nat) option" where
  "caret sel d =
     (case sel of
        NoSelection \<Rightarrow> Some ([], length d)
      | NoRange \<Rightarrow> None
      | RangeAt p off \<Rightarrow> Some (p, off))"

definition valid_selection :: "selection \<Rightarrow> node list \<Rightarrow> bool" where
  "valid_selection sel d =
     (case caret sel d of
        None \<Rightarrow> False
      | Some (p, off) \<Rightarrow> insert_at p off [] d \<noteq> None)"

text \<open>
  Paste of the text \<open>t\<close>, then the dialog closed by \<open>a\<close> (its Cancel button or a
  dismissal); paste, a citation typed, then Add Reference clicked at time \<open>now\<close>.
\<close>

definition paste_cancel :: "action \<Rightarrow> string \<Rightarrow> selection \<Rightarrow> editor_state \<Rightarrow> editor_state" where
  "paste_cancel a t sel s = step a (step (Paste (ClipboardText t) sel) s)"

definition paste_commit ::
  "string \<Rightarrow> selection \<Rightarrow> string \<Rightarrow> nat \<Rightarrow> selection \<Rightarrow> editor_state \<Rightarrow> editor_state" where
  "paste_commit t sel c now sel' s =
     step (AddReference now sel') (step (TypeCitation c) (step (Paste (ClipboardText t) sel) s))"

text \<open>The nodes \<open>handleAddReference\<close> inserts for the text \<open>t\<close> at time \<open>now\<close>.\<close>

definition reference_nodes :: "nat \<Rightarrow> string \<Rightarrow> node list" where
  "reference_nodes now t =
     [Element ''span''
        [(''class'', ''text-blue-600 font-medium''), (''data-ref-id'', toString now)] [TextNode t],
      TextNode [CHR 0xA0],
      Element ''span'' [(''data-normal'', ''true'')] []]"

section \<open>The earlier editor component\<close>

text \<open>
  The \<open>Editor\<close> component of \<open>src/components/ui/editor.tsx\<close>.  Its state is the fields
  \<open>references\<close>, \<open>selectedText\<close>, \<open>isDialogOpen\<close>, \<open>citation\<close> and \<open>doc\<close> of the record;
  it has no counters, no \<open>input\<close> listener and no question generation.  Its paste
  handler is \<open>handleEditorPaste\<close>, line for line.  Its effect has the dependencies
  \<open>[isDialogOpen, selectedText]\<close> and puts the captured text and a space in the marker's
  place; its span carries a class and the text only.
\<close>

definition dialogCloseEffect_v1 :: "editor_state \<Rightarrow> editor_state" where
  "dialogCloseEffect_v1 s =
     (if isDialogOpen s then s
      else (case replace_first is_marker [TextNode (selectedText s), TextNode '' ''] (doc s) of
              None \<Rightarrow> s
            | Some d \<Rightarrow> s\<lparr>doc := d\<rparr>))"

definition handleAddReference_v1 :: "nat \<Rightarrow> selection \<Rightarrow> editor_state \<Rightarrow> editor_state" where
  "handleAddReference_v1 now sel s =
     (if trim (citation s) = [] \<or> trim (selectedText s) = [] then s
      else
        (let newReference =
               \<lparr>ref_id = toString now, ref_text = selectedText s, ref_citation = citation s\<rparr>;
             span = Element ''span'' [(''class'', ''text-blue-600 font-medium'')]
                      [TextNode (selectedText s)];
             spaceNode = TextNode '' '';
             s1 = s\<lparr>references := references s @ [newReference]\<rparr>;
             inserted =
               (case replace_first is_marker [span, spaceNode] (doc s) of
                  Some d \<Rightarrow> Some d
                | None \<Rightarrow>
                    (case sel of
                       RangeAt p off \<Rightarrow> insert_at p off [span, spaceNode] (doc s)
                     | _ \<Rightarrow> Some (doc s @ [span, spaceNode])))
         in case inserted of
              None \<Rightarrow> s1
            | Some d \<Rightarrow> s1\<lparr>doc := d, isDialogOpen := False, citation := []\<rparr>))"

definition handleRemoveReference_v1 :: "string \<Rightarrow> editor_state \<Rightarrow> editor_state" where
  "handleRemoveReference_v1 i s = s\<lparr>references := filter (\<lambda>r. ref_id r \<noteq> i) (references s)\<rparr>"

definition handleClearDocument_v1 :: "editor_state \<Rightarrow> editor_state" where
  "handleClearDocument_v1 s = s\<lparr>doc := []\<rparr>"

definition commitRender_v1 :: "editor_state \<Rightarrow> editor_state \<Rightarrow> editor_state" where
  "commitRender_v1 old new =
     (if isDialogOpen new \<noteq> isDialogOpen old \<or> selectedText new \<noteq> selectedText old
      then dialogCloseEffect_v1 new else new)"

text \<open>
  Its events: \<open>CancelDialog\<close> and \<open>DismissDialog\<close> are both \<open>setIsDialogOpen(false)\<close> here;
  the events it has no handler for change nothing.
\<close>

fun step_v1 :: "action \<Rightarrow> editor_state \<Rightarrow> editor_state" where
  "step_v1 (Paste cb sel) s = commitRender_v1 s (handleEditorPaste cb sel s)"
| "step_v1 (TypeCitation c) s = s\<lparr>citation := c\<rparr>"
| "step_v1 (AddReference now sel) s = commitRender_v1 s (handleAddReference_v1 now sel s)"
| "step_v1 CancelDialog s = commitRender_v1 s (s\<lparr>isDialogOpen := False\<rparr>)"
| "step_v1 DismissDialog s = commitRender_v1 s (s\<lparr>isDialogOpen := False\<rparr>)"
| "step_v1 (EditorInput d inputType len) s = s\<lparr>doc := d\<rparr>"
| "step_v1 (RemoveReference i) s = handleRemoveReference_v1 i s"
| "step_v1 ClearDocument s = handleClearDocument_v1 s"
| "step_v1 a s = s"

definition paste_cancel_v1 :: "action \<Rightarrow> string \<Rightarrow> selection \<Rightarrow> editor_state \<Rightarrow> editor_state" where
  "paste_cancel_v1 a t sel s = step_v1 a (step_v1 (Paste (ClipboardText t) sel) s)"

definition paste_commit_v1 ::
  "string \<Rightarrow> selection \<Rightarrow> string \<Rightarrow> nat \<Rightarrow> selection \<Rightarrow> editor_state \<Rightarrow> editor_state" where
  "paste_commit_v1 t sel c now sel' s =
     step_v1 (AddReference now sel') (step_v1 (TypeCitation c) (step_v1 (Paste (ClipboardText t) sel) s))"

definition reference_nodes_v1 :: "string \<Rightarrow> node list" where
  "reference_nodes_v1 t =
     [Element ''span'' [(''class'', ''text-blue-600 font-medium'')] [TextNode t], TextNode '' '']"

section \<open>The activity page: keystrokes sampled every 100 ms\<close>

text \<open>
  The \<open>HomePage\<close> component with the \<open>keystrokes\<close> and \<open>backspaces\<close> series
  (\<open>src/unnamed/part_001\<close>): its two state arrays and its two counter refs.
  \<open>handleKeyDown focused key\<close> is the global \<open>keydown\<close> listener, \<open>focused\<close> saying whether
  the textarea is the active element.
\<close>

record activity_state =
  keystrokes :: "nat list"
  backspaces :: "nat list"
  keystrokesRef :: nat
  backspaceRef :: nat

definition handleKeyDown :: "bool \<Rightarrow> string \<Rightarrow> activity_state \<Rightarrow> activity_state" where
  "handleKeyDown focused k a =
     (if focused
      then (if k = ''Backspace'' then a\<lparr>backspaceRef := backspaceRef a + 1\<rparr>
            else a\<lparr>keystrokesRef := keystrokesRef a + 1\<rparr>)
      else a)"

definition interval_tick :: "activity_state \<Rightarrow> activity_state" where
  "interval_tick a =
     a\<lparr>keystrokes := keystrokes a @ [keystrokesRef a],
       backspaces := backspaces a @ [backspaceRef a]\<rparr>"

section \<open>The question-generation request handler\<close>

text \<open>
  \<open>handler\<close> of \<open>src/pages/api/generate-questions.ts\<close>.  The request is its method and
  its body.  The body is \<open>null\<close> or \<open>undefined\<close>, and then \<open>const { text } = req.body\<close> throws a
  TypeError outside the \<open>try\<close> block, so the handler sends no response; or it is a value
  whose \<open>text\<close> property is absent, a value that is not a string, or a string.  The
  environment is \<open>process.env.GEMINI_API_KEY\<close> and what the upstream call does when it is
  issued: \<open>fetch\<close> rejects, or it resolves to a response with a status and a status text
  whose \<open>json()\<close> rejects or yields data.  Of the data the handler reads
  \<open>candidates[0].content.parts[0].text\<close>: there are no parts (the guard of the \<open>if\<close> is
  falsy), or reading the text throws a TypeError with the given message (the data is null,
  the first part is missing or has no \<open>text\<close>, or \<open>text\<close> is no string and has no
  \<open>split\<close>), or the text is a string.  The string beside the data is \<open>JSON.stringify(data)\<close>.
\<close>

datatype body_text = Absent | NotAString | Str string

datatype request_body = NoBody | Body body_text

record request =
  req_method :: string
  req_body :: request_body

datatype gemini_data = NoCandidateParts | Unreadable string | ResponseText string

datatype json_result = JsonRejected string | Json gemini_data string

datatype upstream = FetchRejected string | Responded nat string json_result

record server_env =
  apiKey :: "string option"
  upstream_reply :: upstream

datatype response_body = Questions "string list" | ErrorBody string "string option"

record response =
  status :: nat
  body :: response_body

datatype error = TypeError

text \<open>
  What a call of the handler does: the response it sends, or the error it throws, and the
  number of calls of \<open>fetch\<close>.
\<close>

record outcome =
  result :: "error + response"
  upstream_calls :: nat

text \<open>\<open>String.prototype.split\<close> with a one-character separator.\<close>

fun split_on :: "char \<Rightarrow> string \<Rightarrow> string list" where
  "split_on c [] = [[]]"
| "split_on c (x # xs) =
     (if x = c then [] # split_on c xs
      else (case split_on c xs of
              [] \<Rightarrow> [[x]]
            | l # ls \<Rightarrow> (x # l) # ls))"

text \<open>\<open>s.replace(/^Q:\s*/, '')\<close>.\<close>

definition strip_marker :: "string \<Rightarrow> string" where
  "strip_marker s = (if startsWith s ''Q:'' then dropWhile is_ws (drop 2 s) else s)"

definition extract_questions :: "string \<Rightarrow> string list" where
  "extract_questions responseText =
     filter (\<lambda>q. q \<noteq> [])
       (map (\<lambda>line. strip_marker (trim line))
          (filter (\<lambda>line. startsWith (trim line) ''Q:'') (split_on (CHR 0x0A) responseText)))"

definition default_question :: string where
  "default_question = ''What is the main idea of this text?''"

text \<open>The loop \<open>while (questions.length < 3) questions.push(...)\<close>.\<close>

function pad_questions :: "string list \<Rightarrow> string list" where
  "pad_questions qs = (if length qs < 3 then pad_questions (qs @ [default_question]) else qs)"
  by pat_completeness auto
termination
  by (relation "measure (\<lambda>qs. 3 - length qs)") auto

declare pad_questions.simps [simp del]

text \<open>
  \<open>questions\<close> before the padding loop: empty, or the marked lines of the response text.
\<close>

definition recovered :: "gemini_data \<Rightarrow> string list" where
  "recovered d = (case d of ResponseText t \<Rightarrow> extract_questions t | _ \<Rightarrow> [])"

definition invalid_text :: "body_text \<Rightarrow> bool" where
  "invalid_text t =
     (case t of
        Absent \<Rightarrow> True
      | NotAString \<Rightarrow> True
      | Str x \<Rightarrow> x = [] \<or> length (trim x) < 30)"

definition response_ok :: "nat \<Rightarrow> bool" where
  "response_ok st = (200 \<le> st \<and> st \<le> 299)"

definition handler :: "request \<Rightarrow> server_env \<Rightarrow> outcome" where
  "handler req env =
     (if req_method req \<noteq> ''POST''
      then \<lparr>result = Inr \<lparr>status = 405, body = ErrorBody ''Method not allowed'' None\<rparr>,
            upstream_calls = 0\<rparr>
      else
        (case req_body req of
           NoBody \<Rightarrow> \<lparr>result = Inl TypeError, upstream_calls = 0\<rparr>
         | Body text \<Rightarrow>
             if invalid_text text
             then \<lparr>result = Inr \<lparr>status = 400,
                     body = ErrorBody ''Invalid input''
                              (Some ''Text is required and must be at least 30 characters'')\<rparr>,
                   upstream_calls = 0\<rparr>
             else if apiKey env = None \<or> apiKey env = Some []
             then \<lparr>result = Inr \<lparr>status = 500,
                     body = ErrorBody ''Server configuration error'' (Some ''API key is missing'')\<rparr>,
                   upstream_calls = 0\<rparr>
             else
               (case upstream_reply env of
                  FetchRejected m \<Rightarrow>
                    \<lparr>result = Inr \<lparr>status = 500,
                       body = ErrorBody ''Failed to generate questions'' (Some m)\<rparr>,
                     upstream_calls = 1\<rparr>
                | Responded st statusText j \<Rightarrow>
                    if \<not> response_ok st
                    then (case j of
                            Json errorData str \<Rightarrow>
                              \<lparr>result = Inr \<lparr>status = st,
                                 body = ErrorBody ''Gemini API error'' (Some str)\<rparr>,
                               upstream_calls = 1\<rparr>
                          | JsonRejected m \<Rightarrow>
                              \<lparr>result = Inr \<lparr>status = st,
                                 body = ErrorBody ''Gemini API error''
                                          (Some (''Status '' @ toString st @ '' - '' @ statusText))\<rparr>,
                               upstream_calls = 1\<rparr>)
                    else (case j of
                            JsonRejected m \<Rightarrow>
                              \<lparr>result = Inr \<lparr>status = 500,
                                 body = ErrorBody ''Failed to generate questions'' (Some m)\<rparr>,
                               upstream_calls = 1\<rparr>
                          | Json (Unreadable m) str \<Rightarrow>
                              \<lparr>result = Inr \<lparr>status = 500,
                                 body = ErrorBody ''Failed to generate questions'' (Some m)\<rparr>,
                               upstream_calls = 1\<rparr>
                          | Json d str \<Rightarrow>
                              \<lparr>result = Inr \<lparr>status = 200,
                                 body = Questions (take 3 (pad_questions (recovered d)))\<rparr>,
                               upstream_calls = 1\<rparr>))))"

section \<open>The event log page\<close>

text \<open>
  The \<open>HomePage\<close> component that logs events (\<open>src/unnamed/part_000\<close>).  Its state
  \<open>events\<close> is the list of entries logged so far; the three handlers build an entry from the
  event's \<open>timeStamp\<close> and payload and append it with \<open>logEvent\<close>.  An entry has the fields of
  \<open>EventLogEntry\<close>, the optional ones as options.  JavaScript numbers are kept abstract: the
  type \<open>'n\<close>, with the functions that print and read them as parameters of the export and of
  the parser.
\<close>

datatype event_type = Keypress | Click | Change

record 'n event_log_entry =
  timestamp :: 'n
  entry_type :: event_type
  entry_value :: "string option"
  entry_key :: "string option"
  coords :: "('n \<times> 'n) option"

definition logEvent :: "'n event_log_entry \<Rightarrow> 'n event_log_entry list \<Rightarrow> 'n event_log_entry list" where
  "logEvent entry events = events @ [entry]"

definition handleChange :: "'n \<Rightarrow> string \<Rightarrow> 'n event_log_entry list \<Rightarrow> 'n event_log_entry list" where
  "handleChange timeStamp v events =
     logEvent \<lparr>timestamp = timeStamp, entry_type = Change, entry_value = Some v,
               entry_key = None, coords = None\<rparr> events"

definition handleKeyDown_log :: "'n \<Rightarrow> string \<Rightarrow> 'n event_log_entry list \<Rightarrow> 'n event_log_entry list" where
  "handleKeyDown_log timeStamp k events =
     logEvent \<lparr>timestamp = timeStamp, entry_type = Keypress, entry_value = None,
               entry_key = Some k, coords = None\<rparr> events"

definition handleClick :: "'n \<Rightarrow> 'n \<Rightarrow> 'n \<Rightarrow> 'n event_log_entry list \<Rightarrow> 'n event_log_entry list" where
  "handleClick timeStamp clientX clientY events =
     logEvent \<lparr>timestamp = timeStamp, entry_type = Click, entry_value = None,
               entry_key = None, coords = Some (clientX, clientY)\<rparr> events"

subsection \<open>The export: \<open>JSON.stringify(events, null, 2)\<close>\<close>

text \<open>
  A JavaScript value that JSON can carry, an object being its list of properties in
  insertion order.  \<open>entry_object\<close> is the object a handler's literal creates: an optional
  field that is not set is no property.
\<close>

datatype 'n json =
    JNull | JBool bool | JNum 'n | JStr string | JArr "'n json list" | JObj "(string \<times> 'n json) list"

definition type_tag :: "event_type \<Rightarrow> string" where
  "type_tag t = (case t of Keypress \<Rightarrow> ''keypress'' | Click \<Rightarrow> ''click'' | Change \<Rightarrow> ''change'')"

definition entry_object :: "'n event_log_entry \<Rightarrow> 'n json" where
  "entry_object e =
     JObj ([(''timestamp'', JNum (timestamp e)), (''type'', JStr (type_tag (entry_type e)))]
           @ (case entry_value e of None \<Rightarrow> [] | Some v \<Rightarrow> [(''value'', JStr v)])
           @ (case entry_key e of None \<Rightarrow> [] | Some k \<Rightarrow> [(''key'', JStr k)])
           @ (case coords e of None \<Rightarrow> []
              | Some (x, y) \<Rightarrow> [(''coords'', JObj [(''x'', JNum x), (''y'', JNum y)])]))"

text \<open>
  \<open>QuoteJSONString\<close> and \<open>SerializeJSONProperty\<close> of ECMA-262 with the gap of two spaces;
  \<open>sh\<close> is \<open>Number::toString\<close>, \<open>lvl\<close> the nesting depth.
\<close>

definition hex_digit :: "nat \<Rightarrow> char" where
  "hex_digit d = ''0123456789abcdef'' ! d"

definition quote_char :: "char \<Rightarrow> string" where
  "quote_char c =
     (if c = CHR 0x08 then [CHR 0x5C, CHR ''b'']
      else if c = CHR 0x09 then [CHR 0x5C, CHR ''t'']
      else if c = CHR 0x0A then [CHR 0x5C, CHR ''n'']
      else if c = CHR 0x0C then [CHR 0x5C, CHR ''f'']
      else if c = CHR 0x0D then [CHR 0x5C, CHR ''r'']
      else if c = CHR 0x22 then [CHR 0x5C, CHR 0x22]
      else if c = CHR 0x5C then [CHR 0x5C, CHR 0x5C]
      else if (of_char c :: nat) < 32
      then [CHR 0x5C, CHR ''u'', CHR ''0'', CHR ''0'',
            hex_digit ((of_char c :: nat) div 16), hex_digit ((of_char c :: nat) mod 16)]
      else [c])"

definition QuoteJSONString :: "string \<Rightarrow> string" where
  "QuoteJSONString s = CHR 0x22 # concat (map quote_char s) @ [CHR 0x22]"

fun join :: "string \<Rightarrow> string list \<Rightarrow> string" where
  "join sep [] = []"
| "join sep [x] = x"
| "join sep (x # y # ys) = x @ sep @ join sep (y # ys)"

definition indent :: "nat \<Rightarrow> string" where
  "indent lvl = replicate (2 * lvl) (CHR 0x20)"

fun stringify :: "('n \<Rightarrow> string) \<Rightarrow> nat \<Rightarrow> 'n json \<Rightarrow> string" where
  "stringify sh lvl JNull = ''null''"
| "stringify sh lvl (JBool b) = (if b then ''true'' else ''false'')"
| "stringify sh lvl (JNum x) = sh x"
| "stringify sh lvl (JStr s) = QuoteJSONString s"
| "stringify sh lvl (JArr vs) =
     (if vs = [] then ''[]''
      else ''['' @ [CHR 0x0A] @ indent (Suc lvl)
           @ join ('','' @ [CHR 0x0A] @ indent (Suc lvl)) (map (stringify sh (Suc lvl)) vs)
           @ [CHR 0x0A] @ indent lvl @ '']'')"
| "stringify sh lvl (JObj ms) =
     (if ms = [] then ''{}''
      else ''{'' @ [CHR 0x0A] @ indent (Suc lvl)
           @ join ('','' @ [CHR 0x0A] @ indent (Suc lvl))
               (map (\<lambda>(k, v). QuoteJSONString k @ '': '' @ stringify sh (Suc lvl) v) ms)
           @ [CHR 0x0A] @ indent lvl @ ''}'')"

definition exportLog :: "('n \<Rightarrow> string) \<Rightarrow> 'n event_log_entry list \<Rightarrow> string" where
  "exportLog sh events = stringify sh 0 (JArr (map entry_object events))"

subsection \<open>Reading the export back: \<open>JSON.parse\<close>\<close>

text \<open>
  A recursive-descent reader of JSON text.  \<open>rd\<close> reads a number from its literal, the
  longest run of number characters.  The functions take fuel, one unit for every value,
  element and member entered; \<open>JSON_parse\<close> gives as much fuel as the text is long.  An
  object is read as the list of its members in source order, which is what \<open>JSON.parse\<close>
  yields when the keys are distinct and none is an array index, as in every export.
\<close>

definition json_ws :: "char \<Rightarrow> bool" where
  "json_ws c = (c \<in> set [CHR 0x20, CHR 0x09, CHR 0x0A, CHR 0x0D])"

definition skip_ws :: "string \<Rightarrow> string" where
  "skip_ws s = dropWhile json_ws s"

definition unhex :: "char \<Rightarrow> nat option" where
  "unhex c =
     (let n = (of_char c :: nat) in
      if 48 \<le> n \<and> n \<le> 57 then Some (n - 48)
      else if 97 \<le> n \<and> n \<le> 102 then Some (n - 87)
      else if 65 \<le> n \<and> n \<le> 70 then Some (n - 55)
      else None)"

definition unescape :: "char \<Rightarrow> char option" where
  "unescape e =
     (if e = CHR 0x22 then Some (CHR 0x22)
      else if e = CHR 0x5C then Some (CHR 0x5C)
      else if e = CHR ''/'' then Some (CHR ''/'')
      else if e = CHR ''b'' then Some (CHR 0x08)
      else if e = CHR ''f'' then Some (CHR 0x0C)
      else if e = CHR ''n'' then Some (CHR 0x0A)
      else if e = CHR ''r'' then Some (CHR 0x0D)
      else if e = CHR ''t'' then Some (CHR 0x09)
      else None)"

fun parse_escape :: "string \<Rightarrow> (char \<times> string) option" where
  "parse_escape [] = None"
| "parse_escape (e # r) =
     (if e = CHR ''u'' then
        (case r of
           h1 # h2 # h3 # h4 # r' \<Rightarrow>
             (case (unhex h1, unhex h2, unhex h3, unhex h4) of
                (Some a, Some b, Some c, Some d) \<Rightarrow>
                  if a = 0 \<and> b = 0 then Some (char_of (16 * c + d), r') else None
              | _ \<Rightarrow> None)
         | _ \<Rightarrow> None)
      else map_option (\<lambda>x. (x, r)) (unescape e))"

lemma parse_escape_shorter: "parse_escape cs = Some (x, r) \<Longrightarrow> length r < length cs"
  by (cases cs) (auto split: if_splits list.splits option.splits)

function parse_chars :: "string \<Rightarrow> (string \<times> string) option" where
  "parse_chars [] = None"
| "parse_chars (c # cs) =
     (if c = CHR 0x22 then Some ([], cs)
      else if c = CHR 0x5C then
        (case parse_escape cs of
           None \<Rightarrow> None
         | Some (x, r) \<Rightarrow> map_option (\<lambda>(s, t). (x # s, t)) (parse_chars r))
      else if (of_char c :: nat) < 32 then None
      else map_option (\<lambda>(s, t). (c # s, t)) (parse_chars cs))"
  by pat_completeness auto
termination
  by (relation "measure length") (auto dest: parse_escape_shorter)

definition is_num_char :: "char \<Rightarrow> bool" where
  "is_num_char c = (c \<in> set ''0123456789+-.eE'')"

definition starts_number :: "char \<Rightarrow> bool" where
  "starts_number c = (c \<in> set ''-0123456789'')"

fun parse_value :: "(string \<Rightarrow> 'n option) \<Rightarrow> nat \<Rightarrow> string \<Rightarrow> ('n json \<times> string) option"
  and parse_elems :: "(string \<Rightarrow> 'n option) \<Rightarrow> nat \<Rightarrow> string \<Rightarrow> ('n json list \<times> string) option"
  and parse_members ::
    "(string \<Rightarrow> 'n option) \<Rightarrow> nat \<Rightarrow> string \<Rightarrow> ((string \<times> 'n json) list \<times> string) option"
where
  "parse_value rd 0 s = None"
| "parse_value rd (Suc f) s =
     (case skip_ws s of
        [] \<Rightarrow> None
      | c # r \<Rightarrow>
          if c = CHR ''['' then
            (case skip_ws r of
               [] \<Rightarrow> None
             | c' # r' \<Rightarrow>
                 if c' = CHR '']'' then Some (JArr [], r')
                 else map_option (\<lambda>(vs, t). (JArr vs, t)) (parse_elems rd f r))
          else if c = CHR ''{'' then
            (case skip_ws r of
               [] \<Rightarrow> None
             | c' # r' \<Rightarrow>
                 if c' = CHR ''}'' then Some (JObj [], r')
                 else map_option (\<lambda>(ms, t). (JObj ms, t)) (parse_members rd f r))
          else if c = CHR 0x22 then map_option (\<lambda>(x, t). (JStr x, t)) (parse_chars r)
          else if take 4 (c # r) = ''null'' then Some (JNull, drop 4 (c # r))
          else if take 4 (c # r) = ''true'' then Some (JBool True, drop 4 (c # r))
          else if take 5 (c # r) = ''false'' then Some (JBool False, drop 5 (c # r))
          else if starts_number c then
            map_option (\<lambda>x. (JNum x, dropWhile is_num_char (c # r))) (rd (takeWhile is_num_char (c # r)))
          else None)"
| "parse_elems rd 0 s = None"
| "parse_elems rd (Suc f) s =
     (case parse_value rd f s of
        None \<Rightarrow> None
      | Some (v, r) \<Rightarrow>
          (case skip_ws r of
             [] \<Rightarrow> None
           | c # r' \<Rightarrow>
               if c = CHR '','' then map_option (\<lambda>(vs, t). (v # vs, t)) (parse_elems rd f r')
               else if c = CHR '']'' then Some ([v], r')
               else None))"
| "parse_members rd 0 s = None"
| "parse_members rd (Suc f) s =
     (case skip_ws s of
        [] \<Rightarrow> None
      | q # r \<Rightarrow>
          if q = CHR 0x22 then
            (case parse_chars r of
               None \<Rightarrow> None
             | Some (k, r1) \<Rightarrow>
                 (case skip_ws r1 of
                    [] \<Rightarrow> None
                  | c1 # r2 \<Rightarrow>
                      if c1 = CHR '':'' then
                        (case parse_value rd f r2 of
                           None \<Rightarrow> None
                         | Some (v, r3) \<Rightarrow>
                             (case skip_ws r3 of
                                [] \<Rightarrow> None
                              | c3 # r4 \<Rightarrow>
                                  if c3 = CHR '','' then
                                    map_option (\<lambda>(ms, t). ((k, v) # ms, t)) (parse_members rd f r4)
                                  else if c3 = CHR ''}'' then Some ([(k, v)], r4)
                                  else None))
                      else None))
          else None)"

definition JSON_parse :: "(string \<Rightarrow> 'n option) \<Rightarrow> string \<Rightarrow> 'n json option" where
  "JSON_parse rd s =
     (case parse_value rd (length s) s of
        None \<Rightarrow> None
      | Some (v, r) \<Rightarrow> if skip_ws r = [] then Some v else None)"

text \<open>
  What the round trip needs of the platform for a number \<open>x\<close>: its literal is a run of
  number characters that starts as a JSON number does, and reading the literal gives \<open>x\<close>
  back.  ECMA-262 has this for every finite number but \<open>-0\<close>.
\<close>

definition number_format_ok :: "('n \<Rightarrow> string) \<Rightarrow> (string \<Rightarrow> 'n option) \<Rightarrow> 'n \<Rightarrow> bool" where
  "number_format_ok sh rd x =
     (rd (sh x) = Some x \<and> sh x \<noteq> [] \<and> starts_number (hd (sh x)) \<and> list_all is_num_char (sh x))"

definition follows_number :: "string \<Rightarrow> bool" where
  "follows_number rest = (case rest of [] \<Rightarrow> True | c # r \<Rightarrow> \<not> is_num_char c)"

fun cost :: "'n json \<Rightarrow> nat" where
  "cost (JArr vs) = Suc (sum_list (map (\<lambda>v. Suc (cost v)) vs))"
| "cost (JObj ms) = Suc (sum_list (map (\<lambda>(k, v). Suc (cost v)) ms))"
| "cost v = 1"


definition entry_numbers :: "'n event_log_entry \<Rightarrow> 'n list" where
  "entry_numbers e = timestamp e # (case coords e of None \<Rightarrow> [] | Some (x, y) \<Rightarrow> [x, y])"


text \<open>
  An instance of the number format: non-negative integers, printed by \<open>toString\<close> and read
  digit by digit.
\<close>

fun read_digits :: "nat \<Rightarrow> string \<Rightarrow> nat option" where
  "read_digits acc [] = Some acc"
| "read_digits acc (c # cs) =
     (if 48 \<le> (of_char c :: nat) \<and> (of_char c :: nat) \<le> 57
      then read_digits (10 * acc + (of_char c - 48)) cs else None)"

definition read_nat :: "string \<Rightarrow> nat option" where
  "read_nat s = (if s = [] then None else read_digits 0 s)"


section \<open>Example states\<close>

text \<open>
  The state of scenario E: two references in the store, fifteen ticks recorded, the
  counters at 40 and 6.
\<close>

definition scenarioE :: editor_state where
  "scenarioE =
     initial_state
       \<lparr>charAmount := 40, backspaceAmount := 6,
        charSeries := replicate 15 40, backspaceSeries := replicate 15 6,
        references :=
          [\<lparr>ref_id = ''1700000000000'', ref_text = ''Climate change is accelerating.'',
            ref_citation = ''(IPCC, 2023)''\<rparr>,
           \<lparr>ref_id = ''1700000000001'', ref_text = ''Sea levels rise.'',
            ref_citation = ''(NOAA, 2022)''\<rparr>],
        doc :=
          [Element ''span'' [(''class'', ''text-blue-600 font-medium''), (''data-ref-id'', ''1700000000000'')]
             [TextNode ''Climate change is accelerating.''],
           TextNode [CHR 0xA0],
           Element ''span'' [(''data-normal'', ''true'')] [],
           Element ''span'' [(''class'', ''text-blue-600 font-medium''), (''data-ref-id'', ''1700000000001'')]
             [TextNode ''Sea levels rise.''],
           TextNode [CHR 0xA0],
           Element ''span'' [(''data-normal'', ''true'')] []]\<rparr>"

text \<open>
  Scenario E after an edit that copied the first reference span (a copying drag, say): two
  spans carry the id of the first reference.
\<close>

definition copied_span_state :: editor_state where
  "copied_span_state = scenarioE\<lparr>doc := doc scenarioE @ take 1 (doc scenarioE)\<rparr>"

text \<open>
  An empty editor in which \<open>abc\<close> was pasted and added as a reference: no \<open>input\<close> event has
  been raised.
\<close>

definition one_reference_state :: editor_state where
  "one_reference_state =
     paste_commit ''abc'' NoSelection ''(NOAA, 2022)'' 1700000000001 NoSelection initial_state"

text \<open>An editor holding 51 characters of plain text.\<close>

definition typed_state :: editor_state where
  "typed_state =
     initial_state\<lparr>doc := [TextNode ''Climate change is accelerating and sea levels rise.'']\<rparr>"

text \<open>A configured server whose upstream call answers 200 with two marked lines.\<close>

definition example_env :: server_env where
 "example_env = \<lparr>apiKey = Some ''key'',
            upstream_reply = Responded 200 ''OK''
              (Json (ResponseText (''Q: What changes?'' @ [CHR 0x0A] @ ''Q: Why now?'')) ''{}'')\<rparr>"

text \<open>A log of three events: a change, a key press and a click.\<close>

definition example_log :: "nat event_log_entry list" where
  "example_log =
     handleClick 1893 412 87
       (handleKeyDown_log 1250 ''a''
          (handleChange 1251 (''say '' @ [CHR 0x22] @ ''a'' @ [CHR 0x22, CHR 0x0A] @ ''b'' @ [CHR 0x5C] @ ''c'') []))"


section \<open>Properties\<close>

subsection \<open>Frame lemmas: what the dialog effect leaves alone\<close>

lemma dialogCloseEffect_frame:
  "charAmount (dialogCloseEffect s) = charAmount s"
  "backspaceAmount (dialogCloseEffect s) = backspaceAmount s"
  "charSeries (dialogCloseEffect s) = charSeries s"
  "backspaceSeries (dialogCloseEffect s) = backspaceSeries s"
  "references (dialogCloseEffect s) = references s"
  "selectedText (dialogCloseEffect s) = selectedText s"
  "isDialogOpen (dialogCloseEffect s) = isDialogOpen s"
  "citation (dialogCloseEffect s) = citation s"
  "oldTextLength (dialogCloseEffect s) = oldTextLength s"
  "requests (dialogCloseEffect s) = requests s"
  "alerts (dialogCloseEffect s) = alerts s"
  "isGeneratingQuestions (dialogCloseEffect s) = isGeneratingQuestions s"
  by (simp_all add: dialogCloseEffect_def split: option.split)

lemma commitRender_frame:
  "charAmount (commitRender b s0 s) = charAmount s"
  "backspaceAmount (commitRender b s0 s) = backspaceAmount s"
  "charSeries (commitRender b s0 s) = charSeries s"
  "backspaceSeries (commitRender b s0 s) = backspaceSeries s"
  "references (commitRender b s0 s) = references s"
  "selectedText (commitRender b s0 s) = selectedText s"
  "isDialogOpen (commitRender b s0 s) = isDialogOpen s"
  "citation (commitRender b s0 s) = citation s"
  "oldTextLength (commitRender b s0 s) = oldTextLength s"
  "requests (commitRender b s0 s) = requests s"
  "alerts (commitRender b s0 s) = alerts s"
  "isGeneratingQuestions (commitRender b s0 s) = isGeneratingQuestions s"
  by (simp_all add: commitRender_def dialogCloseEffect_frame)

subsection \<open>The activity sampler\<close>

lemma sampler_ticks_series:
  "charSeries ((sampler_tick ^^ N) s) = charSeries s @ replicate N (charAmount s) \<and>
   backspaceSeries ((sampler_tick ^^ N) s) = backspaceSeries s @ replicate N (backspaceAmount s) \<and>
   charAmount ((sampler_tick ^^ N) s) = charAmount s \<and>
   backspaceAmount ((sampler_tick ^^ N) s) = backspaceAmount s"
proof (induction N)
  case 0
  show ?case by simp
next
  case (Suc N)
  then show ?case
    by (simp add: sampler_tick_def replicate_append_same)
qed

lemma interval_ticks_series:
  "keystrokes ((interval_tick ^^ N) a) = keystrokes a @ replicate N (keystrokesRef a) \<and>
   backspaces ((interval_tick ^^ N) a) = backspaces a @ replicate N (backspaceRef a) \<and>
   keystrokesRef ((interval_tick ^^ N) a) = keystrokesRef a \<and>
   backspaceRef ((interval_tick ^^ N) a) = backspaceRef a"
proof (induction N)
  case 0
  show ?case by simp
next
  case (Suc N)
  then show ?case
    by (simp add: interval_tick_def replicate_append_same)
qed

lemma last_two_replicate:
  "2 \<le> N \<Longrightarrow> last (xs @ replicate N c) = last (butlast (xs @ replicate N c))"
proof -
  assume "2 \<le> N"
  then obtain M where N: "N = Suc (Suc M)" by (metis add_2_eq_Suc le_Suc_ex)
  have "replicate N c = replicate M c @ replicate 2 c"
    unfolding N by (simp only: replicate_add [symmetric]) simp
  then have "xs @ replicate N c = (xs @ replicate M c @ [c]) @ [c]"
    by (simp add: numeral_2_eq_2)
  then show ?thesis by (simp del: append_assoc replicate_Suc)
qed

text \<open>
  Claim C6.  Every tick of the sampler appends the current counter to both series, whatever
  the change since the last tick; this holds for the editor's sampler and for the activity
  page's.  So after \<open>N\<close> ticks with no event in between, series that started empty have
  length \<open>N\<close>, and for \<open>N \<ge> 2\<close> the last two values of each series are equal.
\<close>

theorem sampler_appends_every_tick:
  "charSeries (sampler_tick s) = charSeries s @ [charAmount s] \<and>
   backspaceSeries (sampler_tick s) = backspaceSeries s @ [backspaceAmount s] \<and>
   keystrokes (interval_tick a) = keystrokes a @ [keystrokesRef a] \<and>
   backspaces (interval_tick a) = backspaces a @ [backspaceRef a] \<and>
   (charSeries s = [] \<and> backspaceSeries s = [] \<longrightarrow>
      length (charSeries ((sampler_tick ^^ N) s)) = N \<and>
      length (backspaceSeries ((sampler_tick ^^ N) s)) = N) \<and>
   (keystrokes a = [] \<and> backspaces a = [] \<longrightarrow>
      length (keystrokes ((interval_tick ^^ N) a)) = N \<and>
      length (backspaces ((interval_tick ^^ N) a)) = N) \<and>
   (2 \<le> N \<longrightarrow>
      last (charSeries ((sampler_tick ^^ N) s)) = last (butlast (charSeries ((sampler_tick ^^ N) s))) \<and>
      last (backspaceSeries ((sampler_tick ^^ N) s)) = last (butlast (backspaceSeries ((sampler_tick ^^ N) s))) \<and>
      last (keystrokes ((interval_tick ^^ N) a)) = last (butlast (keystrokes ((interval_tick ^^ N) a))) \<and>
      last (backspaces ((interval_tick ^^ N) a)) = last (butlast (backspaces ((interval_tick ^^ N) a))))"
  using last_two_replicate [of N "charSeries s" "charAmount s"]
    last_two_replicate [of N "backspaceSeries s" "backspaceAmount s"]
    last_two_replicate [of N "keystrokes a" "keystrokesRef a"]
    last_two_replicate [of N "backspaces a" "backspaceRef a"]
  by (simp add: sampler_ticks_series interval_ticks_series sampler_tick_def interval_tick_def)

theorem sampler_appends_every_tick_witness:
  "charSeries (initial_state\<lparr>charAmount := 7, backspaceAmount := 2\<rparr>) = [] \<and>
   backspaceSeries (initial_state\<lparr>charAmount := 7, backspaceAmount := 2\<rparr>) = [] \<and>
   keystrokes \<lparr>keystrokes = [], backspaces = [], keystrokesRef = 4, backspaceRef = 1\<rparr> = [] \<and>
   backspaces \<lparr>keystrokes = [], backspaces = [], keystrokesRef = 4, backspaceRef = 1\<rparr> = [] \<and>
   (2::nat) \<le> 3 \<and>
   length (charSeries ((sampler_tick ^^ 3) (initial_state\<lparr>charAmount := 7, backspaceAmount := 2\<rparr>))) = 3 \<and>
   length (backspaceSeries ((sampler_tick ^^ 3) (initial_state\<lparr>charAmount := 7, backspaceAmount := 2\<rparr>))) = 3 \<and>
   length (keystrokes ((interval_tick ^^ 3)
      \<lparr>keystrokes = [], backspaces = [], keystrokesRef = 4, backspaceRef = 1\<rparr>)) = 3 \<and>
   last (charSeries ((sampler_tick ^^ 3) (initial_state\<lparr>charAmount := 7, backspaceAmount := 2\<rparr>))) =
     last (butlast (charSeries ((sampler_tick ^^ 3) (initial_state\<lparr>charAmount := 7, backspaceAmount := 2\<rparr>)))) \<and>
   last (backspaces ((interval_tick ^^ 3)
      \<lparr>keystrokes = [], backspaces = [], keystrokesRef = 4, backspaceRef = 1\<rparr>)) =
     last (butlast (backspaces ((interval_tick ^^ 3)
      \<lparr>keystrokes = [], backspaces = [], keystrokesRef = 4, backspaceRef = 1\<rparr>)))"
  using sampler_appends_every_tick
    [of "initial_state\<lparr>charAmount := 7, backspaceAmount := 2\<rparr>"
        "\<lparr>keystrokes = [], backspaces = [], keystrokesRef = 4, backspaceRef = 1\<rparr>" 3]
  by (simp add: initial_state_def)

subsection \<open>The activity counters\<close>

lemma step_counters:
  assumes "a \<noteq> ClearDocument"
  shows "charAmount s \<le> charAmount (step a s)" "backspaceAmount s \<le> backspaceAmount (step a s)"
  using assms
  by (cases a; simp add: commitRender_frame handleEditorInput_def handleEditorPaste_def
        handleAddReference_def handleCancelDialog_def handleRemoveReference_def sampler_tick_def
        handleGenerateQuestions_def questionsSettled_def Let_def
        split: clipboard.split selection.split option.split fetch_outcome.split)+

text \<open>
  Claim C5.  A document-change notification never decreases the keystroke counter or the
  deletion counter; no event other than the document-clear action decreases either; and
  the document-clear action, in one step, sets both counters to zero and empties both
  series and the reference store.
\<close>

theorem counters_reset_only_by_clear:
  "charAmount s \<le> charAmount (step (EditorInput d inputType len) s) \<and>
   backspaceAmount s \<le> backspaceAmount (step (EditorInput d inputType len) s) \<and>
   (a \<noteq> ClearDocument \<longrightarrow>
      charAmount s \<le> charAmount (step a s) \<and> backspaceAmount s \<le> backspaceAmount (step a s)) \<and>
   charAmount (step ClearDocument s) = 0 \<and>
   backspaceAmount (step ClearDocument s) = 0 \<and>
   charSeries (step ClearDocument s) = [] \<and>
   backspaceSeries (step ClearDocument s) = [] \<and>
   references (step ClearDocument s) = []"
proof -
  have "charAmount s \<le> charAmount (step (EditorInput d inputType len) s)"
    "backspaceAmount s \<le> backspaceAmount (step (EditorInput d inputType len) s)"
    by (rule step_counters, simp)+
  moreover have "a \<noteq> ClearDocument \<longrightarrow>
      charAmount s \<le> charAmount (step a s) \<and> backspaceAmount s \<le> backspaceAmount (step a s)"
    using step_counters by blast
  moreover have "charAmount (step ClearDocument s) = 0" "backspaceAmount (step ClearDocument s) = 0"
    "charSeries (step ClearDocument s) = []" "backspaceSeries (step ClearDocument s) = []"
    "references (step ClearDocument s) = []"
    by (simp_all add: commitRender_frame handleClearDocument_def)
  ultimately show ?thesis by blast
qed

theorem counters_reset_only_by_clear_witness:
  "SamplerTick \<noteq> ClearDocument \<and>
   length (references scenarioE) = 2 \<and> length (charSeries scenarioE) = 15 \<and>
   charAmount scenarioE \<le> charAmount (step SamplerTick scenarioE) \<and>
   backspaceAmount scenarioE \<le> backspaceAmount (step SamplerTick scenarioE) \<and>
   charAmount scenarioE \<le> charAmount (step (EditorInput [] ''deleteContentBackward'' 0) scenarioE) \<and>
   charAmount (step ClearDocument scenarioE) = 0 \<and>
   backspaceAmount (step ClearDocument scenarioE) = 0 \<and>
   charSeries (step ClearDocument scenarioE) = [] \<and>
   backspaceSeries (step ClearDocument scenarioE) = [] \<and>
   references (step ClearDocument scenarioE) = []"
  using counters_reset_only_by_clear [of scenarioE "[]" "''deleteContentBackward''" 0 SamplerTick]
  by (simp add: scenarioE_def initial_state_def)

subsection \<open>The request handler\<close>

lemma pad_questions_closed:
  "pad_questions qs = qs @ replicate (3 - length qs) default_question"
proof (induction qs rule: pad_questions.induct)
  case (1 qs)
  show ?case
  proof (cases "length qs < 3")
    case True
    then have "3 - length qs = Suc (3 - length (qs @ [default_question]))" by simp
    with True 1 show ?thesis
      by (subst pad_questions.simps) simp
  next
    case False
    then show ?thesis by (subst pad_questions.simps) simp
  qed
qed


text \<open>A POST request whose body is \<open>null\<close> or \<open>undefined\<close> gets no response from the handler.\<close>

lemma handler_without_body:
  "req_method req = ''POST'' \<Longrightarrow> req_body req = NoBody \<Longrightarrow>
   handler req env = \<lparr>result = Inl TypeError, upstream_calls = 0\<rparr>"
  by (simp add: handler_def)



subsection \<open>Question generation in the editor\<close>

text \<open>
  The claim C8 as stated fails: the handler never reads the busy flag.  With a request
  outstanding and the questions dialog closed again, a second click sends a second request.
\<close>

theorem second_request_counterexample:
  "isGeneratingQuestions (step CloseQuestionsDialog (step (GenerateQuestions []) typed_state)) \<and>
   length (requests (step CloseQuestionsDialog (step (GenerateQuestions []) typed_state))) = 1 \<and>
   length (requests (step (GenerateQuestions [])
     (step CloseQuestionsDialog (step (GenerateQuestions []) typed_state)))) = 2"
  by (simp add: typed_state_def initial_state_def handleGenerateQuestions_def editor_text_def
      doc_text_def trim_def is_ws_def Let_def)

text \<open>
  Claim C8, amended.  With fewer than 30 characters of trimmed text the generation action
  only alerts the user: no request is sent.  Otherwise it sends one request and sets the
  busy flag, whatever the flag was before; the flag is cleared when a request settles,
  which sends nothing.
\<close>

theorem generate_questions_requests:
  "(length (trim (editor_text innerText s)) < 30 \<longrightarrow>
      step (GenerateQuestions innerText) s =
        s\<lparr>alerts := alerts s @ [''Please enter more text before generating questions.'']\<rparr>) \<and>
   (30 \<le> length (trim (editor_text innerText s)) \<longrightarrow>
      requests (step (GenerateQuestions innerText) s) = requests s @ [editor_text innerText s] \<and>
      isGeneratingQuestions (step (GenerateQuestions innerText) s)) \<and>
   requests (step (QuestionsSettled now r) s) = requests s \<and>
   \<not> isGeneratingQuestions (step (QuestionsSettled now r) s)"
  by (auto simp add: handleGenerateQuestions_def questionsSettled_def Let_def trim_def
      split: fetch_outcome.splits option.splits)

theorem generate_questions_requests_witness:
  "30 \<le> length (trim (editor_text [] typed_state)) \<and>
   length (trim (editor_text ''hello'' initial_state)) < 30 \<and>
   requests (step (GenerateQuestions []) typed_state) =
     [''Climate change is accelerating and sea levels rise.''] \<and>
   isGeneratingQuestions (step (GenerateQuestions []) typed_state) \<and>
   requests (step (GenerateQuestions ''hello'') initial_state) = [] \<and>
   alerts (step (GenerateQuestions ''hello'') initial_state) =
     [''Please enter more text before generating questions.'']"
proof -
  have a: "30 \<le> length (trim (editor_text [] typed_state))"
    by (simp add: typed_state_def initial_state_def editor_text_def doc_text_def trim_def is_ws_def)
  have b: "length (trim (editor_text ''hello'' initial_state)) < 30"
    by (simp add: initial_state_def editor_text_def doc_text_def trim_def is_ws_def)
  show ?thesis
    using generate_questions_requests [of "[]" typed_state]
      generate_questions_requests [of "''hello''" initial_state] a b
    by (simp add: typed_state_def initial_state_def editor_text_def doc_text_def)
qed

subsection \<open>Nodes, text and positions of the document\<close>

lemma count_nodes_append [simp]:
  "count_nodes P (xs @ ys) = count_nodes P xs + count_nodes P ys"
  by (induction P xs rule: count_nodes.induct) simp_all

lemma doc_text_append [simp]: "doc_text (xs @ ys) = doc_text xs @ doc_text ys"
  by (simp add: doc_text_def)

lemma doc_text_Cons [simp]: "doc_text (n # ns) = textContent n @ doc_text ns"
  by (simp add: doc_text_def)

lemma doc_text_Nil [simp]: "doc_text [] = []"
  by (simp add: doc_text_def)

lemma textContent_Element [simp]: "textContent (Element tg as cs) = doc_text cs"
  by (simp add: doc_text_def)

declare textContent.simps(2) [simp del]

lemma count_nodes_Cons: "count_nodes P (n # ns) = count_nodes P [n] + count_nodes P ns"
  by (cases n) simp_all

lemma replace_first_None_iff:
  "(replace_first P new d = None) = (count_nodes P d = 0)"
  by (induction P new d rule: replace_first.induct) (auto split: option.splits)

text \<open>
  Replacing the first match fails exactly when the lookup (\<open>getElementById\<close>,
  \<open>querySelector\<close>) finds nothing.
\<close>

lemma find_first_None_iff:
  "(find_first P d = None) = (count_nodes P d = 0)"
  by (induction P d rule: find_first.induct) (auto split: option.splits)

lemma replace_first_find_first:
  "(replace_first P new d = None) = (find_first P d = None)"
  by (simp add: replace_first_None_iff find_first_None_iff)

lemma replace_first_hit: "P n \<Longrightarrow> replace_first P new (n # ns) = Some (new @ ns)"
  by (cases n) simp_all

lemma replace_first_append:
  "count_nodes P xs = 0 \<Longrightarrow>
   replace_first P new (xs @ ys) = map_option ((@) xs) (replace_first P new ys)"
proof (induction P new xs rule: replace_first.induct)
  case (1 P new)
  show ?case by (simp add: option.map_ident)
next
  case (2 P new t ns)
  then show ?case by (simp add: option.map_comp comp_def split: if_splits)
next
  case (3 P new tg as cs ns)
  then have "replace_first P new cs = None"
    by (simp add: replace_first_None_iff split: if_splits)
  with 3 show ?case by (simp add: option.map_comp comp_def split: if_splits)
qed

lemma insert_at_defined:
  "(insert_at p off new d = None) = (insert_at p off new' d = None)"
  by (induction p arbitrary: d) (auto split: node.splits)

lemma is_marker_children: "is_marker (Element tg as cs') = is_marker (Element tg as cs)"
  by simp

lemma nth_decomp: "i < length d \<Longrightarrow> d = take i d @ d ! i # drop (Suc i) d"
  by (simp add: id_take_nth_drop)

lemma count_nodes_parts:
  assumes "count_nodes P d = 0" and "i < length d"
  shows "count_nodes P (take i d) = 0" and "count_nodes P [d ! i] = 0"
    and "count_nodes P (drop (Suc i) d) = 0"
proof -
  have "count_nodes P (take i d @ [d ! i] @ drop (Suc i) d) = 0"
    using assms nth_decomp [of i d] by simp
  then show "count_nodes P (take i d) = 0" "count_nodes P [d ! i] = 0"
    "count_nodes P (drop (Suc i) d) = 0"
    by (simp_all add: count_nodes_Cons [of P "d ! i" "drop (Suc i) d"])
qed

lemma count_nodes_take:
  assumes "count_nodes P d = 0"
  shows "count_nodes P (take k d) = 0"
proof -
  have "count_nodes P (take k d @ drop k d) = 0" using assms by simp
  then show ?thesis by (simp del: append_take_drop_id)
qed

lemma replace_marker_after_insert:
  assumes "count_nodes is_marker d = 0" and "is_marker m"
  shows "Option.bind (insert_at p off [m] d) (replace_first is_marker new) = insert_at p off new d"
  using assms(1)
proof (induction p arbitrary: d)
  case Nil
  then show ?case
    using assms(2)
    by (simp add: replace_first_append count_nodes_take replace_first_hit)
next
  case (Cons i p)
  show ?case
  proof (cases "i < length d")
    case False
    then show ?thesis by simp
  next
    case True
    note parts = count_nodes_parts [OF Cons.prems True]
    show ?thesis
    proof (cases "d ! i")
      case (TextNode t)
      have "replace_first is_marker new (TextNode (take off t) # m # TextNode (drop off t) # drop (Suc i) d)
            = Some (TextNode (take off t) # new @ TextNode (drop off t) # drop (Suc i) d)"
        using assms(2) by (simp add: replace_first_hit)
      then show ?thesis
        using True TextNode parts(1) by (simp add: replace_first_append)
    next
      case (Element tg as cs)
      have nm: "\<not> is_marker (Element tg as cs)" and cs0: "count_nodes is_marker cs = 0"
        using parts(2) Element by (simp_all split: if_splits)
      have IH: "Option.bind (insert_at p off [m] cs) (replace_first is_marker new) = insert_at p off new cs"
        using Cons.IH [OF cs0] .
      show ?thesis
      proof (cases "insert_at p off [m] cs")
        case None
        then have "insert_at p off new cs = None" using insert_at_defined by blast
        with None True Element show ?thesis by simp
      next
        case (Some cs')
        then obtain cs'' where new: "insert_at p off new cs = Some cs''"
          using insert_at_defined [of p off "[m]" cs new] by (cases "insert_at p off new cs") auto
        with IH Some have "replace_first is_marker new cs' = Some cs''" by simp
        then have "replace_first is_marker new (Element tg as cs' # drop (Suc i) d)
            = Some (Element tg as cs'' # drop (Suc i) d)"
          using nm by simp
        then show ?thesis
          using True Element Some new parts(1) by (simp add: replace_first_append)
      qed
    qed
  qed
qed

lemma doc_text_insert_at:
  assumes "insert_at p off new d = Some d'"
  shows "\<exists>pre post. doc_text d = pre @ post \<and> doc_text d' = pre @ doc_text new @ post"
  using assms
proof (induction p arbitrary: d d')
  case Nil
  then have d': "d' = take off d @ new @ drop off d" by (simp split: if_splits)
  have "doc_text d = doc_text (take off d) @ doc_text (drop off d)"
    by (simp flip: doc_text_append)
  then show ?case using d' by auto
next
  case (Cons i p)
  then have lt: "i < length d" by (simp split: if_splits)
  have dd: "doc_text d = doc_text (take i d) @ textContent (d ! i) @ doc_text (drop (Suc i) d)"
    using nth_decomp [OF lt] by (metis doc_text_Cons doc_text_append)
  show ?case
  proof (cases "d ! i")
    case (TextNode t)
    with Cons.prems lt have d': "d' = take i d @ [TextNode (take off t)] @ new @ [TextNode (drop off t)] @ drop (Suc i) d"
      by (simp split: if_splits)
    have "doc_text d = (doc_text (take i d) @ take off t) @ (drop off t @ doc_text (drop (Suc i) d))"
      using dd TextNode by simp
    moreover have "doc_text d' = (doc_text (take i d) @ take off t) @ doc_text new @ (drop off t @ doc_text (drop (Suc i) d))"
      using d' by simp
    ultimately show ?thesis by blast
  next
    case (Element tg as cs)
    with Cons.prems lt obtain cs' where cs': "insert_at p off new cs = Some cs'"
      and d': "d' = take i d @ [Element tg as cs'] @ drop (Suc i) d"
      by (auto split: if_splits)
    from Cons.IH [OF cs'] obtain pre post where
      pp: "doc_text cs = pre @ post" "doc_text cs' = pre @ doc_text new @ post" by blast
    have "doc_text d = (doc_text (take i d) @ pre) @ (post @ doc_text (drop (Suc i) d))"
      using dd Element pp by simp
    moreover have "doc_text d' = (doc_text (take i d) @ pre) @ doc_text new @ (post @ doc_text (drop (Suc i) d))"
      using d' pp by simp
    ultimately show ?thesis by blast
  qed
qed

text \<open>
  Counting with a predicate that looks at an element's tag and attributes only, and at no
  text node.
\<close>

lemma count_nodes_insert_at:
  assumes leaf: "\<And>t. \<not> P (TextNode t)"
    and shallow: "\<And>tg as cs cs'. P (Element tg as cs) = P (Element tg as cs')"
    and ins: "insert_at p off new d = Some d'"
  shows "count_nodes P d' = count_nodes P d + count_nodes P new"
  using ins
proof (induction p arbitrary: d d')
  case Nil
  then have d': "d' = take off d @ new @ drop off d" by (simp split: if_splits)
  have "count_nodes P d = count_nodes P (take off d) + count_nodes P (drop off d)"
    by (simp flip: count_nodes_append)
  then show ?case using d' by simp
next
  case (Cons i p)
  then have lt: "i < length d" by (simp split: if_splits)
  have dd: "count_nodes P d = count_nodes P (take i d) + count_nodes P [d ! i] + count_nodes P (drop (Suc i) d)"
    using nth_decomp [OF lt] count_nodes_Cons [of P "d ! i" "drop (Suc i) d"]
    by (metis add.assoc count_nodes_append)
  show ?case
  proof (cases "d ! i")
    case (TextNode t)
    with Cons.prems lt have d': "d' = take i d @ [TextNode (take off t)] @ new @ [TextNode (drop off t)] @ drop (Suc i) d"
      by (simp split: if_splits)
    show ?thesis using dd TextNode leaf by (simp add: d')
  next
    case (Element tg as cs)
    with Cons.prems lt obtain cs' where cs': "insert_at p off new cs = Some cs'"
      and d': "d' = take i d @ [Element tg as cs'] @ drop (Suc i) d"
      by (auto split: if_splits)
    have "count_nodes P cs' = count_nodes P cs + count_nodes P new"
      using Cons.IH [OF cs'] .
    then show ?thesis
      using dd Element shallow [of tg as cs cs'] by (simp add: d')
  qed
qed

lemma count_nodes_replace_first:
  assumes leaf: "\<And>t. \<not> Q (TextNode t)"
    and shallow: "\<And>tg as cs cs'. Q (Element tg as cs) = Q (Element tg as cs')"
  shows "replace_first P new d = Some d' \<Longrightarrow> count_nodes Q d' \<le> count_nodes Q d + count_nodes Q new"
proof (induction P new d arbitrary: d' rule: replace_first.induct)
  case (1 P new)
  then show ?case by simp
next
  case (2 P new t ns)
  then show ?case using leaf by (auto split: if_splits)
next
  case (3 P new tg as cs ns)
  show ?case
  proof (cases "P (Element tg as cs)")
    case True
    with 3 show ?thesis by auto
  next
    case False
    show ?thesis
    proof (cases "replace_first P new cs")
      case None
      with 3 False show ?thesis by auto
    next
      case (Some cs')
      with 3 False have "count_nodes Q cs' \<le> count_nodes Q cs + count_nodes Q new"
        and "d' = Element tg as cs' # ns" by auto
      then show ?thesis using shallow [of tg as cs cs'] by simp
    qed
  qed
qed

lemma count_nodes_remove_first_aux:
  "(\<forall>t. \<not> P (TextNode t)) \<and> (\<forall>tg as cs cs'. P (Element tg as cs) = P (Element tg as cs')) \<Longrightarrow>
   replace_first P new d = Some d' \<Longrightarrow> new = [] \<Longrightarrow> count_nodes P d' < count_nodes P d"
proof (induction P new d arbitrary: d' rule: replace_first.induct)
  case (1 P new)
  then show ?case by simp
next
  case (2 P new t ns)
  then show ?case by (auto split: if_splits)
next
  case (3 P new tg as cs ns)
  show ?case
  proof (cases "P (Element tg as cs)")
    case True
    with 3 show ?thesis by auto
  next
    case False
    show ?thesis
    proof (cases "replace_first P new cs")
      case None
      with 3 False show ?thesis by auto
    next
      case (Some cs')
      with 3 False have "count_nodes P cs' < count_nodes P cs"
        and "d' = Element tg as cs' # ns" by auto
      moreover have "\<not> P (Element tg as cs')"
        using False "3.prems"(1) by blast
      ultimately show ?thesis using False by simp
    qed
  qed
qed

lemma count_nodes_remove_first:
  assumes "\<And>t. \<not> P (TextNode t)"
    and "\<And>tg as cs cs'. P (Element tg as cs) = P (Element tg as cs')"
    and "replace_first P [] d = Some d'"
  shows "count_nodes P d' < count_nodes P d"
  using count_nodes_remove_first_aux [of P "[]" d d'] assms by blast

lemma count_list_span_ref_ids:
  "count_list (span_ref_ids d) i = count_nodes (is_ref_span i) d"
proof (induction d rule: span_ref_ids.induct)
  case 1
  show ?case by simp
next
  case (2 t ns)
  then show ?case by simp
next
  case (3 tg as cs ns)
  then show ?case
    by (cases "tg = ''span''"; cases "map_of as ''data-ref-id''"; simp)
qed

lemma span_ref_ids_count:
  "(i \<in> set (span_ref_ids d)) = (count_nodes (is_ref_span i) d \<noteq> 0)"
  using count_list_0_iff [of "span_ref_ids d" i] by (simp add: count_list_span_ref_ids)

lemma toString_nonempty: "toString n \<noteq> []"
  by (subst toString.simps) simp

lemma is_marker_leaf: "\<not> is_marker (TextNode t)" by simp
lemma is_ref_span_leaf: "\<not> is_ref_span i (TextNode t)" by simp
lemma is_ref_span_children: "is_ref_span i (Element tg as cs) = is_ref_span i (Element tg as cs')" by simp

lemma count_marker_insert_at:
  "insert_at p off new d = Some d' \<Longrightarrow> count_nodes is_marker d' = count_nodes is_marker d + count_nodes is_marker new"
  by (rule count_nodes_insert_at [OF is_marker_leaf is_marker_children])

lemma count_ref_span_insert_at:
  "insert_at p off new d = Some d' \<Longrightarrow>
   count_nodes (is_ref_span i) d' = count_nodes (is_ref_span i) d + count_nodes (is_ref_span i) new"
  by (rule count_nodes_insert_at [OF is_ref_span_leaf is_ref_span_children])

lemma handleEditorPaste_caret:
  assumes "trim t \<noteq> []"
  shows "handleEditorPaste (ClipboardText t) sel s =
    (case caret sel (doc s) of
       None \<Rightarrow> s
     | Some (p, off) \<Rightarrow>
         (case insert_at p off [tempMarker] (doc s) of
            None \<Rightarrow> s\<lparr>selectedText := t\<rparr>
          | Some d \<Rightarrow> s\<lparr>selectedText := t, doc := d, isDialogOpen := True\<rparr>))"
  using assms by (simp add: handleEditorPaste_def caret_def insertNode_def split: selection.split)

lemma dialogCloseEffect_no_marker:
  "count_nodes is_marker (doc s) = 0 \<Longrightarrow> dialogCloseEffect s = s"
  using replace_first_None_iff [of is_marker "[]" "doc s"] by (simp add: dialogCloseEffect_def)

lemma dialogCloseEffect_v1_no_marker:
  "count_nodes is_marker (doc s) = 0 \<Longrightarrow> dialogCloseEffect_v1 s = s"
  using replace_first_None_iff [of is_marker "[TextNode (selectedText s), TextNode '' '']" "doc s"]
  by (simp add: dialogCloseEffect_v1_def)

lemma handleEditorPaste_doc:
  "isDialogOpen (handleEditorPaste cb sel s) \<or> doc (handleEditorPaste cb sel s) = doc s"
  by (simp add: handleEditorPaste_def split: clipboard.split selection.split option.split)

lemma step_Paste:
  assumes "count_nodes is_marker (doc s) = 0"
  shows "commitRender False s (handleEditorPaste cb sel s) = handleEditorPaste cb sel s"
proof -
  have "dialogCloseEffect (handleEditorPaste cb sel s) = handleEditorPaste cb sel s"
    using handleEditorPaste_doc [of cb sel s] assms
    by (auto simp add: dialogCloseEffect_no_marker) (simp add: dialogCloseEffect_def)
  then show ?thesis by (simp add: commitRender_def)
qed

lemma step_v1_Paste:
  assumes "count_nodes is_marker (doc s) = 0"
  shows "commitRender_v1 s (handleEditorPaste cb sel s) = handleEditorPaste cb sel s"
proof -
  have "dialogCloseEffect_v1 (handleEditorPaste cb sel s) = handleEditorPaste cb sel s"
    using handleEditorPaste_doc [of cb sel s] assms
    by (auto simp add: dialogCloseEffect_v1_no_marker) (simp add: dialogCloseEffect_v1_def)
  then show ?thesis by (simp add: commitRender_v1_def)
qed

lemma close_without_marker:
  assumes "count_nodes is_marker (doc s) = 0" and "a = CancelDialog \<or> a = DismissDialog"
  shows "doc (step a s) = doc s"
  using assms
  by (auto simp add: commitRender_def handleCancelDialog_def dialogCloseEffect_no_marker)

lemma tempMarker_props [simp]:
  "is_marker tempMarker" "doc_text [tempMarker] = []" "count_nodes is_marker [tempMarker] = 1"
  by (simp_all add: tempMarker_def)

lemma replace_tempMarker:
  assumes "count_nodes is_marker d = 0" and "insert_at p off [tempMarker] d = Some d1"
  shows "replace_first is_marker new d1 = insert_at p off new d"
  using replace_marker_after_insert [OF assms(1) tempMarker_props(1), of p off new] assms(2) by simp

lemma doc_text_insert_empty:
  assumes "insert_at p off new d = Some d'" and "doc_text new = []"
  shows "doc_text d' = doc_text d"
  using doc_text_insert_at [OF assms(1)] assms(2) by auto

text \<open>The document after paste then cancel, in the editor with reference tracking.\<close>

lemma paste_cancel_doc:
  assumes nm: "count_nodes is_marker (doc s) = 0" and t: "trim t \<noteq> []"
    and a: "a = CancelDialog \<or> a = DismissDialog"
  shows "doc_text (doc (paste_cancel a t sel s)) = doc_text (doc s)"
    and "(\<forall>r \<in> set (references s). ref_text r \<noteq> t) \<Longrightarrow>
         count_nodes is_marker (doc (paste_cancel a t sel s)) = 0"
proof -
  let ?s1 = "handleEditorPaste (ClipboardText t) sel s"
  have pc: "paste_cancel a t sel s = step a ?s1"
    by (simp add: paste_cancel_def step_Paste [OF nm])
  consider (same) "doc ?s1 = doc s"
    | (marked) p off d1 where "caret sel (doc s) = Some (p, off)"
        "insert_at p off [tempMarker] (doc s) = Some d1"
        "?s1 = s\<lparr>selectedText := t, doc := d1, isDialogOpen := True\<rparr>"
    using handleEditorPaste_caret [OF t, of sel s] by (auto split: option.splits)
  then have "doc_text (doc (paste_cancel a t sel s)) = doc_text (doc s) \<and>
    ((\<forall>r \<in> set (references s). ref_text r \<noteq> t) \<longrightarrow>
       count_nodes is_marker (doc (paste_cancel a t sel s)) = 0)"
  proof cases
    case same
    then have "doc (step a ?s1) = doc s"
      using close_without_marker [of ?s1 a] a nm by simp
    then show ?thesis using pc nm by simp
  next
    case marked
    obtain d2 where d2: "insert_at p off [] (doc s) = Some d2"
      using insert_at_defined [of p off "[tempMarker]" "doc s" "[]"] marked(2)
      by (cases "insert_at p off [] (doc s)") auto
    have rep: "replace_first is_marker [] d1 = Some d2"
      using replace_tempMarker [OF nm marked(2), of "[]"] d2 by simp
    have t1: "doc_text d1 = doc_text (doc s)"
      using doc_text_insert_empty [OF marked(2) tempMarker_props(2)] .
    have t2: "doc_text d2 = doc_text (doc s)"
      using doc_text_insert_empty [OF d2 doc_text_Nil] .
    have c2: "count_nodes is_marker d2 = 0"
      using count_marker_insert_at [OF d2] nm by simp
    have "doc (step a ?s1) = (if \<exists>r \<in> set (references s). ref_text r = t then d1 else d2)"
      using a rep
      by (auto simp add: marked(3) commitRender_def handleCancelDialog_def dialogCloseEffect_def)
    then show ?thesis using pc t1 t2 c2 by auto
  qed
  then show "doc_text (doc (paste_cancel a t sel s)) = doc_text (doc s)"
    and "(\<forall>r \<in> set (references s). ref_text r \<noteq> t) \<Longrightarrow>
         count_nodes is_marker (doc (paste_cancel a t sel s)) = 0"
    by blast+
qed

lemma valid_selection_caret:
  assumes "valid_selection sel d"
  obtains p off d1 where "caret sel d = Some (p, off)" "insert_at p off [tempMarker] d = Some d1"
proof -
  from assms obtain p off where c: "caret sel d = Some (p, off)" and "insert_at p off [] d \<noteq> None"
    by (auto simp add: valid_selection_def split: option.splits)
  then have "insert_at p off [tempMarker] d \<noteq> None"
    using insert_at_defined [of p off "[]" d "[tempMarker]"] by simp
  then show ?thesis using c that by auto
qed

lemma paste_cancel_v1_doc:
  assumes nm: "count_nodes is_marker (doc s) = 0" and t: "trim t \<noteq> []"
    and a: "a = CancelDialog \<or> a = DismissDialog"
    and v: "valid_selection sel (doc s)"
  shows "count_nodes is_marker (doc (paste_cancel_v1 a t sel s)) = 0"
    and "\<exists>pre post. doc_text (doc s) = pre @ post \<and>
           doc_text (doc (paste_cancel_v1 a t sel s)) = pre @ t @ '' '' @ post"
proof -
  from v obtain p off d1 where c: "caret sel (doc s) = Some (p, off)"
    and d1: "insert_at p off [tempMarker] (doc s) = Some d1"
    by (rule valid_selection_caret)
  let ?new = "[TextNode t, TextNode '' '']"
  let ?s1 = "s\<lparr>selectedText := t, doc := d1, isDialogOpen := True\<rparr>"
  have s1: "handleEditorPaste (ClipboardText t) sel s = ?s1"
    using handleEditorPaste_caret [OF t, of sel s] c d1 by simp
  obtain d2 where d2: "insert_at p off ?new (doc s) = Some d2"
    using insert_at_defined [of p off "[tempMarker]" "doc s" ?new] d1
    by (cases "insert_at p off ?new (doc s)") auto
  have rep: "replace_first is_marker ?new d1 = Some d2"
    using replace_tempMarker [OF nm d1, of ?new] d2 by simp
  have "doc (paste_cancel_v1 a t sel s) = d2"
    using a rep
    by (auto simp add: paste_cancel_v1_def step_v1_Paste [OF nm] s1 commitRender_v1_def
        dialogCloseEffect_v1_def)
  moreover have "count_nodes is_marker d2 = 0"
    using count_marker_insert_at [OF d2] nm by simp
  moreover have "\<exists>pre post. doc_text (doc s) = pre @ post \<and> doc_text d2 = pre @ t @ '' '' @ post"
    using doc_text_insert_at [OF d2] by simp
  ultimately show "count_nodes is_marker (doc (paste_cancel_v1 a t sel s)) = 0"
    and "\<exists>pre post. doc_text (doc s) = pre @ post \<and>
           doc_text (doc (paste_cancel_v1 a t sel s)) = pre @ t @ '' '' @ post"
    by simp_all
qed


lemmas eval_defs =
  scenarioE_def typed_state_def initial_state_def trim_def is_ws_def valid_selection_def caret_def
  tempMarker_def insertNode_def paste_cancel_def paste_cancel_v1_def paste_commit_def paste_commit_v1_def
  commitRender_def commitRender_v1_def handleEditorPaste_def handleCancelDialog_def
  dialogCloseEffect_def dialogCloseEffect_v1_def handleAddReference_def handleAddReference_v1_def
  handleRemoveReference_def handleEditorInput_def currentRefs_def startsWith_def Let_def
  reference_nodes_def reference_nodes_v1_def

subsection \<open>Paste, then cancel\<close>




subsection \<open>Paste, then commit\<close>

lemma reference_nodes_counts [simp]:
  "count_nodes is_marker (reference_nodes now t) = 0"
  "count_nodes (is_ref_span i) (reference_nodes now t) = (if i = toString now then 1 else 0)"
  "count_nodes is_marker (reference_nodes_v1 t) = 0"
  "count_nodes (is_ref_span i) (reference_nodes_v1 t) = 0"
  by (auto simp add: reference_nodes_def reference_nodes_v1_def)

lemma paste_commit_result:
  assumes nm: "count_nodes is_marker (doc s) = 0" and t: "trim t \<noteq> []" and c: "trim c \<noteq> []"
    and car: "caret sel (doc s) = Some (p, off)" and ok: "insert_at p off [] (doc s) \<noteq> None"
  shows "\<exists>d2. insert_at p off (reference_nodes now t) (doc s) = Some d2 \<and>
           paste_commit t sel c now sel' s =
             s\<lparr>selectedText := t, doc := d2, isDialogOpen := False, citation := [],
               references := references s @ [\<lparr>ref_id = toString now, ref_text = t, ref_citation = c\<rparr>]\<rparr>"
proof -
  obtain d1 where d1: "insert_at p off [tempMarker] (doc s) = Some d1"
    using insert_at_defined [of p off "[]" "doc s" "[tempMarker]"] ok by auto
  obtain d2 where d2: "insert_at p off (reference_nodes now t) (doc s) = Some d2"
    using insert_at_defined [of p off "[]" "doc s" "reference_nodes now t"] ok by auto
  let ?s1 = "s\<lparr>selectedText := t, doc := d1, isDialogOpen := True\<rparr>"
  have s1: "handleEditorPaste (ClipboardText t) sel s = ?s1"
    using handleEditorPaste_caret [OF t, of sel s] car d1 by simp
  have rep: "replace_first is_marker (reference_nodes now t) d1 = Some d2"
    using replace_tempMarker [OF nm d1, of "reference_nodes now t"] d2 by simp
  let ?s3 = "s\<lparr>selectedText := t, doc := d2, isDialogOpen := False, citation := [],
               references := references s @ [\<lparr>ref_id = toString now, ref_text = t, ref_citation = c\<rparr>]\<rparr>"
  have add: "handleAddReference now sel' (?s1\<lparr>citation := c\<rparr>) = ?s3"
    using t c rep by (simp add: handleAddReference_def Let_def reference_nodes_def)
  have "count_nodes is_marker d2 = 0"
    using count_marker_insert_at [OF d2] nm by simp
  then have eff: "dialogCloseEffect ?s3 = ?s3"
    by (simp add: dialogCloseEffect_no_marker)
  have p1: "step (Paste (ClipboardText t) sel) s = ?s1"
    using step_Paste [OF nm, of "ClipboardText t" sel] s1 by simp
  have p2: "step (TypeCitation c) ?s1 = ?s1\<lparr>citation := c\<rparr>"
    by simp
  have p3: "step (AddReference now sel') (?s1\<lparr>citation := c\<rparr>) = ?s3"
    using t c add eff by (simp add: commitRender_def)
  have "paste_commit t sel c now sel' s = ?s3"
    by (simp only: paste_commit_def p1 p2 p3)
  with d2 show ?thesis by blast
qed

lemma paste_commit_v1_result:
  assumes nm: "count_nodes is_marker (doc s) = 0" and t: "trim t \<noteq> []" and c: "trim c \<noteq> []"
    and car: "caret sel (doc s) = Some (p, off)" and ok: "insert_at p off [] (doc s) \<noteq> None"
  shows "\<exists>d2. insert_at p off (reference_nodes_v1 t) (doc s) = Some d2 \<and>
           paste_commit_v1 t sel c now sel' s =
             s\<lparr>selectedText := t, doc := d2, isDialogOpen := False, citation := [],
               references := references s @ [\<lparr>ref_id = toString now, ref_text = t, ref_citation = c\<rparr>]\<rparr>"
proof -
  obtain d1 where d1: "insert_at p off [tempMarker] (doc s) = Some d1"
    using insert_at_defined [of p off "[]" "doc s" "[tempMarker]"] ok by auto
  obtain d2 where d2: "insert_at p off (reference_nodes_v1 t) (doc s) = Some d2"
    using insert_at_defined [of p off "[]" "doc s" "reference_nodes_v1 t"] ok by auto
  let ?s1 = "s\<lparr>selectedText := t, doc := d1, isDialogOpen := True\<rparr>"
  have s1: "handleEditorPaste (ClipboardText t) sel s = ?s1"
    using handleEditorPaste_caret [OF t, of sel s] car d1 by simp
  have rep: "replace_first is_marker (reference_nodes_v1 t) d1 = Some d2"
    using replace_tempMarker [OF nm d1, of "reference_nodes_v1 t"] d2 by simp
  let ?s3 = "s\<lparr>selectedText := t, doc := d2, isDialogOpen := False, citation := [],
               references := references s @ [\<lparr>ref_id = toString now, ref_text = t, ref_citation = c\<rparr>]\<rparr>"
  have add: "handleAddReference_v1 now sel' (?s1\<lparr>citation := c\<rparr>) = ?s3"
    using t c rep by (simp add: handleAddReference_v1_def Let_def reference_nodes_v1_def)
  have "count_nodes is_marker d2 = 0"
    using count_marker_insert_at [OF d2] nm by simp
  then have eff: "dialogCloseEffect_v1 ?s3 = ?s3"
    by (simp add: dialogCloseEffect_v1_no_marker)
  have p1: "step_v1 (Paste (ClipboardText t) sel) s = ?s1"
    using step_v1_Paste [OF nm, of "ClipboardText t" sel] s1 by simp
  have p2: "step_v1 (TypeCitation c) ?s1 = ?s1\<lparr>citation := c\<rparr>"
    by simp
  have p3: "step_v1 (AddReference now sel') (?s1\<lparr>citation := c\<rparr>) = ?s3"
    using add eff by (simp add: commitRender_v1_def)
  have "paste_commit_v1 t sel c now sel' s = ?s3"
    by (simp only: paste_commit_v1_def p1 p2 p3)
  with d2 show ?thesis by blast
qed

text \<open>
  The claim C2 as stated fails in the earlier editor component: the span it inserts carries
  a class and the text, and no attribute with the reference's id.
\<close>

theorem span_without_id_counterexample:
  "count_nodes is_marker (doc typed_state) = 0 \<and>
   trim ''Sea levels rise.'' \<noteq> [] \<and> trim ''(NOAA, 2022)'' \<noteq> [] \<and>
   map ref_id (references
     (paste_commit_v1 ''Sea levels rise.'' NoSelection ''(NOAA, 2022)'' 1700000000001 NoSelection typed_state)) =
     [toString 1700000000001] \<and>
   doc (paste_commit_v1 ''Sea levels rise.'' NoSelection ''(NOAA, 2022)'' 1700000000001 NoSelection typed_state) =
     [TextNode ''Climate change is accelerating and sea levels rise.'',
      Element ''span'' [(''class'', ''text-blue-600 font-medium'')] [TextNode ''Sea levels rise.''],
      TextNode '' ''] \<and>
   count_nodes (is_ref_span (toString 1700000000001))
     (doc (paste_commit_v1 ''Sea levels rise.'' NoSelection ''(NOAA, 2022)'' 1700000000001 NoSelection typed_state)) = 0"
  by (simp add: eval_defs)

text \<open>
  Claim C2, amended.  Start from a document without a marker, paste a text that is not blank
  at a usable selection, type a citation that is not blank and click Add Reference.  In both
  editor components the reference store gains exactly one entry, last, with the pasted text
  and the citation, and the document is the document before the paste with the reference's
  nodes inserted at the caret.  In the editor with reference tracking exactly one span with
  \<open>data-ref-id\<close> is new and its value is the entry's id; no marker is left and the dialog is
  closed.  In the earlier component the new span carries no id: for every id the number of
  spans carrying it is unchanged.  In both, with a citation or captured text that is blank
  the click changes nothing: store, document and dialog stay as they are.
\<close>

theorem paste_then_commit:
  assumes "count_nodes is_marker (doc s) = 0" and "trim t \<noteq> []" and "trim c \<noteq> []"
    and "caret sel (doc s) = Some (p, off)" and "insert_at p off [] (doc s) \<noteq> None"
  shows "references (paste_commit t sel c now sel' s) =
           references s @ [\<lparr>ref_id = toString now, ref_text = t, ref_citation = c\<rparr>] \<and>
         insert_at p off (reference_nodes now t) (doc s) = Some (doc (paste_commit t sel c now sel' s)) \<and>
         (\<forall>i. count_nodes (is_ref_span i) (doc (paste_commit t sel c now sel' s)) =
               count_nodes (is_ref_span i) (doc s) + (if i = toString now then 1 else 0)) \<and>
         count_nodes is_marker (doc (paste_commit t sel c now sel' s)) = 0 \<and>
         \<not> isDialogOpen (paste_commit t sel c now sel' s) \<and>
         references (paste_commit_v1 t sel c now sel' s) =
           references s @ [\<lparr>ref_id = toString now, ref_text = t, ref_citation = c\<rparr>] \<and>
         insert_at p off (reference_nodes_v1 t) (doc s) = Some (doc (paste_commit_v1 t sel c now sel' s)) \<and>
         (\<forall>i. count_nodes (is_ref_span i) (doc (paste_commit_v1 t sel c now sel' s)) =
               count_nodes (is_ref_span i) (doc s)) \<and>
         (trim (citation u) = [] \<or> trim (selectedText u) = [] \<longrightarrow>
            step (AddReference now sel') u = u \<and> step_v1 (AddReference now sel') u = u)"
proof -
  from paste_commit_result [OF assms, of now sel']
  obtain d2 where d2: "insert_at p off (reference_nodes now t) (doc s) = Some d2"
    and r: "paste_commit t sel c now sel' s =
             s\<lparr>selectedText := t, doc := d2, isDialogOpen := False, citation := [],
               references := references s @ [\<lparr>ref_id = toString now, ref_text = t, ref_citation = c\<rparr>]\<rparr>"
    by blast
  from paste_commit_v1_result [OF assms, of now sel']
  obtain e2 where e2: "insert_at p off (reference_nodes_v1 t) (doc s) = Some e2"
    and r1: "paste_commit_v1 t sel c now sel' s =
             s\<lparr>selectedText := t, doc := e2, isDialogOpen := False, citation := [],
               references := references s @ [\<lparr>ref_id = toString now, ref_text = t, ref_citation = c\<rparr>]\<rparr>"
    by blast
  have noop: "trim (citation u) = [] \<or> trim (selectedText u) = [] \<longrightarrow>
            step (AddReference now sel') u = u \<and> step_v1 (AddReference now sel') u = u"
    by (auto simp add: handleAddReference_def handleAddReference_v1_def commitRender_def commitRender_v1_def)
  show ?thesis
    using d2 e2 noop count_ref_span_insert_at [OF d2] count_ref_span_insert_at [OF e2]
      count_marker_insert_at [OF d2] assms(1)
    by (simp add: r r1)
qed

theorem paste_then_commit_witness:
  "count_nodes is_marker (doc typed_state) = 0 \<and>
   trim ''Sea levels rise.'' \<noteq> [] \<and> trim ''(NOAA, 2022)'' \<noteq> [] \<and>
   caret (RangeAt [0] 30) (doc typed_state) = Some ([0], 30) \<and>
   insert_at [0] 30 [] (doc typed_state) \<noteq> None \<and>
   trim (citation initial_state) = [] \<and>
   references (paste_commit ''Sea levels rise.'' (RangeAt [0] 30) ''(NOAA, 2022)'' 1700000000001 NoRange typed_state) =
     [\<lparr>ref_id = toString 1700000000001, ref_text = ''Sea levels rise.'', ref_citation = ''(NOAA, 2022)''\<rparr>] \<and>
   count_nodes (is_ref_span (toString 1700000000001))
     (doc (paste_commit ''Sea levels rise.'' (RangeAt [0] 30) ''(NOAA, 2022)'' 1700000000001 NoRange typed_state)) = 1 \<and>
   step (AddReference 1700000000001 NoRange) initial_state = initial_state"
proof -
  have h1: "count_nodes is_marker (doc typed_state) = 0"
    by (simp add: typed_state_def initial_state_def)
  have h2: "trim ''Sea levels rise.'' \<noteq> []"
    by (simp add: trim_def is_ws_def)
  have h3: "trim ''(NOAA, 2022)'' \<noteq> []"
    by (simp add: trim_def is_ws_def)
  have h4: "caret (RangeAt [0] 30) (doc typed_state) = Some ([0], 30)"
    by (simp add: caret_def)
  have h5: "insert_at [0] 30 [] (doc typed_state) \<noteq> None"
    by (simp add: typed_state_def initial_state_def)
  have h6: "trim (citation initial_state) = []"
    by (simp add: initial_state_def trim_def)
  have h7: "references typed_state = []" "count_nodes (is_ref_span (toString 1700000000001)) (doc typed_state) = 0"
    by (simp_all add: typed_state_def initial_state_def)
  show ?thesis
    using paste_then_commit [OF h1 h2 h3 h4 h5, of 1700000000001 NoRange initial_state] h1 h2 h3 h4 h5 h6 h7
    by simp
qed

subsection \<open>The reference store follows the spans\<close>

lemma handleEditorInput_references:
  "references (handleEditorInput inputType len s) =
     filter (\<lambda>r. ref_id r \<in> currentRefs (doc s)) (references s)"
  by (simp add: handleEditorInput_def Let_def)

lemma handleEditorInput_doc: "doc (handleEditorInput inputType len s) = doc s"
  by (simp add: handleEditorInput_def Let_def)

lemma dialogCloseEffect_count:
  "count_nodes (is_ref_span i) (doc (dialogCloseEffect s)) \<le> count_nodes (is_ref_span i) (doc s)"
proof (cases "replace_first is_marker [] (doc s)")
  case None
  then show ?thesis by (simp add: dialogCloseEffect_def)
next
  case (Some d)
  have "count_nodes (is_ref_span i) d \<le> count_nodes (is_ref_span i) (doc s) + count_nodes (is_ref_span i) []"
    using Some by (rule count_nodes_replace_first [OF is_ref_span_leaf is_ref_span_children])
  then show ?thesis using Some by (simp add: dialogCloseEffect_def Let_def)
qed

lemma commitRender_count:
  "count_nodes (is_ref_span i) (doc (commitRender b s0 s)) \<le> count_nodes (is_ref_span i) (doc s)"
  using dialogCloseEffect_count [of i s] by (simp add: commitRender_def)

lemma handleRemoveReference_count:
  assumes "count_nodes (is_ref_span i) (doc s) \<le> 1"
  shows "count_nodes (is_ref_span i) (doc (handleRemoveReference i s)) = 0"
proof (cases "replace_first (is_ref_span i) [] (doc s)")
  case None
  then show ?thesis
    using replace_first_None_iff [of "is_ref_span i" "[]" "doc s"]
    by (simp add: handleRemoveReference_def Let_def)
next
  case (Some d)
  have "count_nodes (is_ref_span i) d < count_nodes (is_ref_span i) (doc s)"
    using count_nodes_remove_first [OF is_ref_span_leaf is_ref_span_children Some] .
  with assms Some show ?thesis
    by (simp add: handleRemoveReference_def Let_def)
qed

text \<open>
  The claim C3 as stated fails for a document in which two spans carry the same id: the
  sidebar's remove action removes the first of them only, so a span with the id remains.
\<close>

theorem sidebar_leaves_copy_counterexample:
  "count_nodes (is_ref_span ''1700000000000'') (doc copied_span_state) = 2 \<and>
   ''1700000000000'' \<in> set (map ref_id (references copied_span_state)) \<and>
   ''1700000000000'' \<notin> set (map ref_id (references (step (RemoveReference ''1700000000000'') copied_span_state))) \<and>
   count_nodes (is_ref_span ''1700000000000'')
     (doc (step (RemoveReference ''1700000000000'') copied_span_state)) = 1"
  by (simp add: copied_span_state_def eval_defs)

text \<open>
  Claim C3, amended.  After a document-change notification the reference store is its
  previous value filtered to the references whose id is in \<open>currentRefs\<close> of the current
  document: for stored ids, which are never empty, the ids that appear as \<open>data-ref-id\<close> of
  a span.  Both ways of deleting a reference span end with the id in neither place: the
  sidebar's remove action, for a document with at most one span of that id, and an edit
  that leaves no span of that id, followed by its notification.
\<close>

theorem references_follow_spans:
  "references (step (EditorInput d inputType len) s) =
     filter (\<lambda>r. ref_id r \<in> currentRefs d) (references s) \<and>
   ((\<forall>r \<in> set (references s). ref_id r \<noteq> []) \<longrightarrow>
      references (step (EditorInput d inputType len) s) =
        filter (\<lambda>r. ref_id r \<in> set (span_ref_ids d)) (references s)) \<and>
   (count_nodes (is_ref_span i) (doc s) \<le> 1 \<longrightarrow>
      i \<notin> ref_id ` set (references (step (RemoveReference i) s)) \<and>
      count_nodes (is_ref_span i) (doc (step (RemoveReference i) s)) = 0) \<and>
   (count_nodes (is_ref_span i) d = 0 \<longrightarrow>
      i \<notin> ref_id ` set (references (step (EditorInput d inputType len) s)) \<and>
      count_nodes (is_ref_span i) (doc (step (EditorInput d inputType len) s)) = 0)"
proof (intro conjI impI)
  show f: "references (step (EditorInput d inputType len) s) =
     filter (\<lambda>r. ref_id r \<in> currentRefs d) (references s)"
    by (simp add: commitRender_frame handleEditorInput_references)
  show "references (step (EditorInput d inputType len) s) =
        filter (\<lambda>r. ref_id r \<in> set (span_ref_ids d)) (references s)"
    if "\<forall>r \<in> set (references s). ref_id r \<noteq> []"
    unfolding f using that by (intro filter_cong) (auto simp add: currentRefs_def)
  show "i \<notin> ref_id ` set (references (step (RemoveReference i) s))"
    by (auto simp add: commitRender_frame handleRemoveReference_def Let_def split: option.splits)
  show "count_nodes (is_ref_span i) (doc (step (RemoveReference i) s)) = 0"
    if "count_nodes (is_ref_span i) (doc s) \<le> 1"
    using commitRender_count [of i True s "handleRemoveReference i s"]
      handleRemoveReference_count [OF that] by simp
  show "i \<notin> ref_id ` set (references (step (EditorInput d inputType len) s))"
    if "count_nodes (is_ref_span i) d = 0"
    unfolding f using that span_ref_ids_count [of i d] by (auto simp add: currentRefs_def)
  show "count_nodes (is_ref_span i) (doc (step (EditorInput d inputType len) s)) = 0"
    if "count_nodes (is_ref_span i) d = 0"
    using commitRender_count [of i True s "handleEditorInput inputType len (s\<lparr>doc := d\<rparr>)"] that
    by (simp add: handleEditorInput_doc)
qed
theorem references_follow_spans_witness:
  "[] \<notin> set (map ref_id (references scenarioE)) \<and>
   count_nodes (is_ref_span ''1700000000000'') (doc scenarioE) \<le> 1 \<and>
   count_nodes (is_ref_span ''1700000000000'') (drop 3 (doc scenarioE)) = 0 \<and>
   map ref_id (references (step (EditorInput (drop 3 (doc scenarioE)) ''deleteContentBackward'' 18 ) scenarioE)) =
     [''1700000000001''] \<and>
   ''1700000000000'' \<notin> set (map ref_id (references (step (RemoveReference ''1700000000000'') scenarioE))) \<and>
   count_nodes (is_ref_span ''1700000000000'') (doc (step (RemoveReference ''1700000000000'') scenarioE)) = 0"
proof -
  have h1: "\<forall>r \<in> set (references scenarioE). ref_id r \<noteq> []"
    by (simp add: scenarioE_def initial_state_def)
  have h2: "count_nodes (is_ref_span ''1700000000000'') (doc scenarioE) \<le> 1"
    by (simp add: scenarioE_def initial_state_def)
  have h3: "count_nodes (is_ref_span ''1700000000000'') (drop 3 (doc scenarioE)) = 0"
    by (simp add: scenarioE_def initial_state_def)
  have h4: "filter (\<lambda>r. ref_id r \<in> set (span_ref_ids (drop 3 (doc scenarioE)))) (references scenarioE) =
     [\<lparr>ref_id = ''1700000000001'', ref_text = ''Sea levels rise.'', ref_citation = ''(NOAA, 2022)''\<rparr>]"
    by (simp add: scenarioE_def initial_state_def)
  note claim = references_follow_spans
      [of "drop 3 (doc scenarioE)" "''deleteContentBackward''" 18 scenarioE "''1700000000000''"]
  from claim h1 have "references (step (EditorInput (drop 3 (doc scenarioE)) ''deleteContentBackward'' 18) scenarioE) =
      filter (\<lambda>r. ref_id r \<in> set (span_ref_ids (drop 3 (doc scenarioE)))) (references scenarioE)"
    by blast
  with h4 have a: "map ref_id
      (references (step (EditorInput (drop 3 (doc scenarioE)) ''deleteContentBackward'' 18) scenarioE)) =
      [''1700000000001'']"
    by (simp del: step.simps)
  from claim h2 have b: "''1700000000000'' \<notin> ref_id ` set (references (step (RemoveReference ''1700000000000'') scenarioE))"
    and c: "count_nodes (is_ref_span ''1700000000000'') (doc (step (RemoveReference ''1700000000000'') scenarioE)) = 0"
    by blast+
  have h1': "[] \<notin> set (map ref_id (references scenarioE))"
    using h1 by auto
  show ?thesis
    using h1' h2 h3 a b c by (simp del: step.simps)
qed

subsection \<open>The marker after a cancel\<close>

text \<open>
  Claim C4 fails on the editor with reference tracking.  In scenario E the store holds a
  reference with the text \<open>Sea levels rise.\<close>; the same text is pasted and the dialog
  cancelled.  The effect takes the stored reference for a commit of this paste and leaves
  the marker in the document.  A second paste of the text then puts a second marker beside
  the first.
\<close>

theorem marker_left_after_cancel:
  "count_nodes is_marker (doc scenarioE) = 0 \<and>
   ref_text (references scenarioE ! 1) = ''Sea levels rise.'' \<and>
   count_nodes is_marker (doc (paste_cancel CancelDialog ''Sea levels rise.'' NoSelection scenarioE)) = 1 \<and>
   \<not> isDialogOpen (paste_cancel CancelDialog ''Sea levels rise.'' NoSelection scenarioE) \<and>
   count_nodes is_marker
     (doc (paste_cancel DismissDialog ''Sea levels rise.'' NoSelection
             (paste_cancel CancelDialog ''Sea levels rise.'' NoSelection scenarioE))) = 2"
  by (simp add: eval_defs)

subsection \<open>Changes of the text that the counters do not see\<close>

text \<open>
  The claim C10 as stated fails for the insertion of a reference's nodes.  It is a change
  made by the component itself and raises no \<open>input\<close> event, and neither does the paste the
  handler intercepts: the baseline stays where it was.  In an empty editor \<open>abc\<close> is pasted
  and added as a reference, which makes a text of 4 characters; then one character is typed.
  The \<open>insertText\<close> event finds a length of 5 and a baseline of 0: the keystroke counter
  becomes 5, the inserted text included.
\<close>

theorem span_insertion_counted_counterexample:
  "oldTextLength one_reference_state = 0 \<and>
   charAmount one_reference_state = 0 \<and>
   length (doc_text (doc one_reference_state)) = 4 \<and>
   length (doc_text (doc one_reference_state @ [TextNode ''x''])) = 5 \<and>
   charAmount
     (step (EditorInput (doc one_reference_state @ [TextNode ''x'']) ''insertText'' 5)
        one_reference_state) = 5"
  by (simp add: one_reference_state_def eval_defs)

lemma other_input_types:
  assumes "inputType \<noteq> ''insertText''" and "\<not> startsWith inputType ''delete''"
  shows "charAmount (handleEditorInput inputType len s) = charAmount s \<and>
         backspaceAmount (handleEditorInput inputType len s) = backspaceAmount s \<and>
         oldTextLength (handleEditorInput inputType len s) = len \<and>
         handleEditorInput inputType len (s\<lparr>oldTextLength := b\<rparr>) = handleEditorInput inputType len s \<and>
         charAmount (handleEditorInput ''insertText'' len' (handleEditorInput inputType len s)) =
           charAmount s + (if len \<le> len' then len' - len else len - len') \<and>
         backspaceAmount (handleEditorInput ''insertText'' len' (handleEditorInput inputType len s)) =
           backspaceAmount s \<and>
         (startsWith inputType' ''delete'' \<longrightarrow>
            backspaceAmount (handleEditorInput inputType' len' (handleEditorInput inputType len s)) =
              backspaceAmount s + (if len \<le> len' then len' - len else len - len') \<and>
            charAmount (handleEditorInput inputType' len' (handleEditorInput inputType len s)) =
              charAmount s)"
  using assms by (auto simp add: handleEditorInput_def Let_def startsWith_def)

lemma script_changes_keep_baseline:
  "oldTextLength (step (Paste cb sel) s) = oldTextLength s \<and>
   charAmount (step (Paste cb sel) s) = charAmount s \<and>
   backspaceAmount (step (Paste cb sel) s) = backspaceAmount s \<and>
   oldTextLength (step (AddReference now sel') s) = oldTextLength s \<and>
   charAmount (step (AddReference now sel') s) = charAmount s \<and>
   backspaceAmount (step (AddReference now sel') s) = backspaceAmount s \<and>
   charAmount (step (EditorInput d ''insertText'' n) (step (AddReference now sel') s)) =
     charAmount s + (if oldTextLength s \<le> n then n - oldTextLength s else oldTextLength s - n) \<and>
   (startsWith inputType' ''delete'' \<longrightarrow>
      backspaceAmount (step (EditorInput d inputType' n) (step (AddReference now sel') s)) =
        backspaceAmount s + (if oldTextLength s \<le> n then n - oldTextLength s else oldTextLength s - n))"
proof -
  have a: "oldTextLength (step (AddReference now sel') s) = oldTextLength s"
    and c: "charAmount (step (AddReference now sel') s) = charAmount s"
    and b: "backspaceAmount (step (AddReference now sel') s) = backspaceAmount s"
    by (simp_all add: commitRender_frame handleAddReference_def Let_def split: option.split)
  have p: "oldTextLength (step (Paste cb sel) s) = oldTextLength s"
    "charAmount (step (Paste cb sel) s) = charAmount s"
    "backspaceAmount (step (Paste cb sel) s) = backspaceAmount s"
    by (simp_all add: commitRender_frame handleEditorPaste_def
        split: clipboard.split selection.split option.split)
  have i: "charAmount (step (EditorInput d ''insertText'' n) (step (AddReference now sel') s)) =
     charAmount s + (if oldTextLength s \<le> n then n - oldTextLength s else oldTextLength s - n)"
    using a c by (simp add: commitRender_frame handleEditorInput_def Let_def del: step.simps(3))
  have e: "backspaceAmount (step (EditorInput d inputType' n) (step (AddReference now sel') s)) =
        backspaceAmount s + (if oldTextLength s \<le> n then n - oldTextLength s else oldTextLength s - n)"
    if "startsWith inputType' ''delete''"
    using a b that
    by (auto simp add: commitRender_frame handleEditorInput_def Let_def startsWith_def
        simp del: step.simps(3))
  from a b c p i e show ?thesis by blast
qed

text \<open>
  Claim C10, amended.  An input event whose \<open>inputType\<close> is neither \<open>insertText\<close> nor starts
  with \<open>delete\<close> changes neither counter and still sets the length baseline to the new
  length.  The state it leaves does not depend on the baseline before it, so no later event
  can attribute the absorbed change: the next event counts the distance from the new length
  only.  The paste that the handler intercepts and the insertion of a reference's nodes
  raise no input event: they change neither counter and leave the baseline where it was,
  so the next \<open>insertText\<close> or \<open>delete\<close> event counts the whole distance from the old
  baseline, the inserted text included.
\<close>

theorem other_input_types_absorbed:
  assumes "inputType \<noteq> ''insertText''" and "\<not> startsWith inputType ''delete''"
  shows "(charAmount (handleEditorInput inputType len s) = charAmount s \<and>
          backspaceAmount (handleEditorInput inputType len s) = backspaceAmount s \<and>
          oldTextLength (handleEditorInput inputType len s) = len \<and>
          handleEditorInput inputType len (s\<lparr>oldTextLength := b\<rparr>) = handleEditorInput inputType len s \<and>
          charAmount (handleEditorInput ''insertText'' len' (handleEditorInput inputType len s)) =
            charAmount s + (if len \<le> len' then len' - len else len - len') \<and>
          backspaceAmount (handleEditorInput ''insertText'' len' (handleEditorInput inputType len s)) =
            backspaceAmount s \<and>
          (startsWith inputType' ''delete'' \<longrightarrow>
             backspaceAmount (handleEditorInput inputType' len' (handleEditorInput inputType len s)) =
               backspaceAmount s + (if len \<le> len' then len' - len else len - len') \<and>
             charAmount (handleEditorInput inputType' len' (handleEditorInput inputType len s)) =
               charAmount s)) \<and>
         (oldTextLength (step (Paste cb sel) s) = oldTextLength s \<and>
          charAmount (step (Paste cb sel) s) = charAmount s \<and>
          backspaceAmount (step (Paste cb sel) s) = backspaceAmount s \<and>
          oldTextLength (step (AddReference now sel') s) = oldTextLength s \<and>
          charAmount (step (AddReference now sel') s) = charAmount s \<and>
          backspaceAmount (step (AddReference now sel') s) = backspaceAmount s \<and>
          charAmount (step (EditorInput d ''insertText'' n) (step (AddReference now sel') s)) =
            charAmount s + (if oldTextLength s \<le> n then n - oldTextLength s else oldTextLength s - n) \<and>
          (startsWith inputType' ''delete'' \<longrightarrow>
             backspaceAmount (step (EditorInput d inputType' n) (step (AddReference now sel') s)) =
               backspaceAmount s +
                 (if oldTextLength s \<le> n then n - oldTextLength s else oldTextLength s - n)))"
  using other_input_types [OF assms, of len s b len' inputType']
    script_changes_keep_baseline [of cb sel s now sel' d n inputType']
  by (rule conjI)

theorem other_input_types_absorbed_witness:
  "''insertFromPaste'' \<noteq> ''insertText'' \<and> \<not> startsWith ''insertFromPaste'' ''delete'' \<and>
   startsWith ''deleteContentBackward'' ''delete'' \<and>
   charAmount (handleEditorInput ''insertFromPaste'' 12 (initial_state\<lparr>oldTextLength := 5\<rparr>)) = 0 \<and>
   backspaceAmount (handleEditorInput ''insertFromPaste'' 12 (initial_state\<lparr>oldTextLength := 5\<rparr>)) = 0 \<and>
   oldTextLength (handleEditorInput ''insertFromPaste'' 12 (initial_state\<lparr>oldTextLength := 5\<rparr>)) = 12 \<and>
   charAmount (handleEditorInput ''insertText'' 13
     (handleEditorInput ''insertFromPaste'' 12 (initial_state\<lparr>oldTextLength := 5\<rparr>))) = 1 \<and>
   backspaceAmount (handleEditorInput ''deleteContentBackward'' 10
     (handleEditorInput ''insertFromPaste'' 12 (initial_state\<lparr>oldTextLength := 5\<rparr>))) = 2 \<and>
   oldTextLength (step (AddReference 1700000000001 NoSelection)
     (initial_state\<lparr>oldTextLength := 5\<rparr>)) = 5 \<and>
   backspaceAmount (step (EditorInput [] ''deleteContentBackward'' 10)
     (step (AddReference 1700000000001 NoSelection) (initial_state\<lparr>oldTextLength := 5\<rparr>))) = 5"
proof -
  have h1: "''insertFromPaste'' \<noteq> ''insertText''" by simp
  have h2: "\<not> startsWith ''insertFromPaste'' ''delete''" by (simp add: startsWith_def)
  have h3: "startsWith ''deleteContentBackward'' ''delete''" by (simp add: startsWith_def)
  note w13 = other_input_types_absorbed
    [OF h1 h2, where len = 12 and s = "initial_state\<lparr>oldTextLength := 5\<rparr>" and b = 0 and len' = 13
      and inputType' = "''deleteContentBackward''" and cb = NoClipboardData and sel = NoSelection
      and now = 1700000000001 and sel' = NoSelection and d = "[]" and n = 10]
  note w10 = other_input_types_absorbed
    [OF h1 h2, where len = 12 and s = "initial_state\<lparr>oldTextLength := 5\<rparr>" and b = 0 and len' = 10
      and inputType' = "''deleteContentBackward''" and cb = NoClipboardData and sel = NoSelection
      and now = 1700000000001 and sel' = NoSelection and d = "[]" and n = 10]
  have i: "oldTextLength (initial_state\<lparr>oldTextLength := 5\<rparr>) = 5"
    "charAmount (initial_state\<lparr>oldTextLength := 5\<rparr>) = 0"
    "backspaceAmount (initial_state\<lparr>oldTextLength := 5\<rparr>) = 0"
    by (simp_all add: initial_state_def)
  from w13 h3 i
  have a: "charAmount (handleEditorInput ''insertFromPaste'' 12 (initial_state\<lparr>oldTextLength := 5\<rparr>)) = 0"
    "backspaceAmount (handleEditorInput ''insertFromPaste'' 12 (initial_state\<lparr>oldTextLength := 5\<rparr>)) = 0"
    "oldTextLength (handleEditorInput ''insertFromPaste'' 12 (initial_state\<lparr>oldTextLength := 5\<rparr>)) = 12"
    "charAmount (handleEditorInput ''insertText'' 13
       (handleEditorInput ''insertFromPaste'' 12 (initial_state\<lparr>oldTextLength := 5\<rparr>))) = 1"
    "oldTextLength (step (AddReference 1700000000001 NoSelection)
       (initial_state\<lparr>oldTextLength := 5\<rparr>)) = 5"
    "backspaceAmount (step (EditorInput [] ''deleteContentBackward'' 10)
       (step (AddReference 1700000000001 NoSelection) (initial_state\<lparr>oldTextLength := 5\<rparr>))) = 5"
    by (simp_all del: step.simps)
  from w10 h3 i
  have "backspaceAmount (handleEditorInput ''deleteContentBackward'' 10
     (handleEditorInput ''insertFromPaste'' 12 (initial_state\<lparr>oldTextLength := 5\<rparr>))) = 2"
    by (simp del: step.simps)
  with a h1 h2 h3 show ?thesis by blast
qed

subsection \<open>The event log export read back\<close>

lemma unhex_hex_digit: "d < 16 \<Longrightarrow> unhex (hex_digit d) = Some d"
proof -
  assume "d < 16"
  then have "d = 0 \<or> d = 1 \<or> d = 2 \<or> d = 3 \<or> d = 4 \<or> d = 5 \<or> d = 6 \<or> d = 7
    \<or> d = 8 \<or> d = 9 \<or> d = 10 \<or> d = 11 \<or> d = 12 \<or> d = 13 \<or> d = 14 \<or> d = 15"
    by arith
  then show ?thesis
    by (elim disjE) (simp_all add: hex_digit_def unhex_def)
qed

lemma unhex_zero: "unhex (CHR ''0'') = Some 0"
  by (simp add: unhex_def)

lemma char_of_div_mod: "char_of (16 * ((of_char c :: nat) div 16) + (of_char c :: nat) mod 16) = c"
  by simp

lemma parse_escape_quote_char:
  assumes "quote_char c = CHR 0x5C # e"
  shows "parse_escape (e @ rest) = Some (c, rest)"
proof -
  have lt: "(of_char c :: nat) div 16 < 16" "(of_char c :: nat) mod 16 < 16"
    by (simp_all add: less_mult_imp_div_less)
  consider (b) "c = CHR 0x08" | (t) "c = CHR 0x09" | (n) "c = CHR 0x0A" | (f) "c = CHR 0x0C"
    | (r) "c = CHR 0x0D" | (q) "c = CHR 0x22" | (s) "c = CHR 0x5C"
    | (u) "c \<noteq> CHR 0x08" "c \<noteq> CHR 0x09" "c \<noteq> CHR 0x0A" "c \<noteq> CHR 0x0C" "c \<noteq> CHR 0x0D"
          "c \<noteq> CHR 0x22" "c \<noteq> CHR 0x5C" "(of_char c :: nat) < 32"
    | (p) "c \<noteq> CHR 0x08" "c \<noteq> CHR 0x09" "c \<noteq> CHR 0x0A" "c \<noteq> CHR 0x0C" "c \<noteq> CHR 0x0D"
          "c \<noteq> CHR 0x22" "c \<noteq> CHR 0x5C" "\<not> (of_char c :: nat) < 32"
    by blast
  then show ?thesis
  proof cases
    case u
    then have "e = [CHR ''u'', CHR ''0'', CHR ''0'',
        hex_digit ((of_char c :: nat) div 16), hex_digit ((of_char c :: nat) mod 16)]"
      using assms by (simp add: quote_char_def)
    then show ?thesis
      using lt by (simp add: unhex_zero unhex_hex_digit)
  next
    case p
    then show ?thesis using assms by (simp add: quote_char_def)
  next
    case b
    with assms show ?thesis by (auto simp add: quote_char_def unescape_def)
  next
    case t
    with assms show ?thesis by (auto simp add: quote_char_def unescape_def)
  next
    case n
    with assms show ?thesis by (auto simp add: quote_char_def unescape_def)
  next
    case f
    with assms show ?thesis by (auto simp add: quote_char_def unescape_def)
  next
    case r
    with assms show ?thesis by (auto simp add: quote_char_def unescape_def)
  next
    case q
    with assms show ?thesis by (auto simp add: quote_char_def unescape_def)
  next
    case s
    with assms show ?thesis by (auto simp add: quote_char_def unescape_def)
  qed
qed

lemma quote_char_cases:
  "quote_char c = [c] \<and> c \<noteq> CHR 0x22 \<and> c \<noteq> CHR 0x5C \<and> \<not> (of_char c :: nat) < 32
   \<or> (\<exists>e. quote_char c = CHR 0x5C # e)"
  by (simp add: quote_char_def)

lemma parse_chars_quote_char:
  "parse_chars (quote_char c @ rest) = map_option (\<lambda>(s, t). (c # s, t)) (parse_chars rest)"
  using quote_char_cases [of c]
proof (elim disjE conjE exE)
  assume "quote_char c = [c]" "c \<noteq> CHR 0x22" "c \<noteq> CHR 0x5C" "\<not> (of_char c :: nat) < 32"
  then show ?thesis by simp
next
  fix e assume e: "quote_char c = CHR 0x5C # e"
  then show ?thesis
    using parse_escape_quote_char [OF e, of rest] by simp
qed

lemma parse_chars_quoted:
  "parse_chars (concat (map quote_char s) @ CHR 0x22 # rest) = Some (s, rest)"
  by (induction s) (simp_all add: parse_chars_quote_char)

lemma skip_ws_indent [simp]: "skip_ws (CHR 0x0A # indent lvl @ s) = skip_ws s"
  by (simp add: skip_ws_def json_ws_def indent_def dropWhile_append)

lemma skip_ws_space [simp]: "skip_ws (CHR 0x20 # s) = skip_ws s"
  by (simp add: skip_ws_def json_ws_def)

lemma skip_ws_nonws: "\<not> json_ws c \<Longrightarrow> skip_ws (c # s) = c # s"
  by (simp add: skip_ws_def)

lemma parse_value_skip_indent [simp]:
  "parse_value rd f (CHR 0x0A # indent lvl @ s) = parse_value rd f s"
  by (cases f) simp_all

lemma parse_value_skip_space [simp]:
  "parse_value rd f (CHR 0x20 # s) = parse_value rd f s"
  by (cases f) simp_all

lemma parse_elems_skip_indent [simp]:
  "parse_elems rd f (CHR 0x0A # indent lvl @ s) = parse_elems rd f s"
  by (cases f) simp_all

lemma parse_members_skip_indent [simp]:
  "parse_members rd f (CHR 0x0A # indent lvl @ s) = parse_members rd f s"
  by (cases f) simp_all

lemma starts_number_props:
  assumes "starts_number c"
  shows "\<not> json_ws c" "c \<noteq> CHR ''[''" "c \<noteq> CHR '']''" "c \<noteq> CHR ''{''" "c \<noteq> CHR ''}''"
    "c \<noteq> CHR 0x22" "c \<noteq> CHR ''n''" "c \<noteq> CHR ''t''" "c \<noteq> CHR ''f''"
  using assms by (auto simp add: starts_number_def json_ws_def)

lemma takeWhile_number:
  assumes "list_all is_num_char t" and "follows_number rest"
  shows "takeWhile is_num_char (t @ rest) = t" and "dropWhile is_num_char (t @ rest) = rest"
  using assms
  by (induction t) (auto simp add: follows_number_def split: list.splits)

lemma parse_number:
  assumes ok: "number_format_ok sh rd x" and rest: "follows_number rest"
  shows "parse_value rd (Suc f) (sh x @ rest) = Some (JNum x, rest)"
proof -
  from ok obtain c t where ct: "sh x = c # t" and st: "starts_number c"
    by (cases "sh x") (auto simp add: number_format_ok_def)
  have all: "list_all is_num_char (c # t)" and rd: "rd (c # t) = Some x"
    using ok ct by (simp_all add: number_format_ok_def)
  have cn: "is_num_char c" and tn: "list_all is_num_char t"
    using all by simp_all
  have tk: "takeWhile is_num_char (t @ rest) = t" "dropWhile is_num_char (t @ rest) = rest"
    using takeWhile_number [OF tn rest] by simp_all
  have sk: "skip_ws (c # t @ rest) = c # t @ rest"
    using starts_number_props(1) [OF st] by (rule skip_ws_nonws)
  show ?thesis
    using starts_number_props [OF st] st rd cn
    by (simp add: ct sk tk)
qed

lemma parse_string:
  "parse_value rd (Suc f) (QuoteJSONString s @ rest) = Some (JStr s, rest)"
proof -
  have "skip_ws (QuoteJSONString s @ rest) = CHR 0x22 # concat (map quote_char s) @ CHR 0x22 # rest"
    by (simp add: QuoteJSONString_def skip_ws_nonws json_ws_def)
  then show ?thesis
    by (simp add: parse_chars_quoted)
qed

text \<open>The first character of a serialized value: no white space and no closing bracket.\<close>

lemma stringify_head:
  assumes "\<forall>x \<in> set_json j. number_format_ok sh rd x"
  shows "\<exists>c r. stringify sh lvl j = c # r \<and> \<not> json_ws c \<and> c \<noteq> CHR '']'' \<and> c \<noteq> CHR ''}''"
proof (cases j)
  case (JNum x)
  then have "number_format_ok sh rd x" using assms by simp
  then obtain c t where "sh x = c # t" "starts_number c"
    by (cases "sh x") (auto simp add: number_format_ok_def)
  then show ?thesis using JNum starts_number_props [of c] by simp
qed (auto simp add: json_ws_def QuoteJSONString_def)

lemma follows_number_simps [simp]:
  "follows_number []" "follows_number (CHR 0x0A # s)" "follows_number (CHR '','' # s)"
  by (simp_all add: follows_number_def is_num_char_def)

lemma skip_ws_close [simp]:
  "skip_ws (CHR '']'' # s) = CHR '']'' # s" "skip_ws (CHR ''}'' # s) = CHR ''}'' # s"
  "skip_ws (CHR '','' # s) = CHR '','' # s" "skip_ws (CHR '':'' # s) = CHR '':'' # s"
  "skip_ws (CHR ''['' # s) = CHR ''['' # s" "skip_ws (CHR ''{'' # s) = CHR ''{'' # s"
  "skip_ws (CHR 0x22 # s) = CHR 0x22 # s"
  by (simp_all add: skip_ws_def json_ws_def)

lemma parse_elems_join:
  assumes "\<And>v f rest. v \<in> set vs \<Longrightarrow> cost v \<le> f \<Longrightarrow> follows_number rest \<Longrightarrow>
             parse_value rd f (stringify sh lvl' v @ rest) = Some (v, rest)"
    and "vs \<noteq> []"
    and "sum_list (map (\<lambda>v. Suc (cost v)) vs) \<le> f"
  shows "parse_elems rd f
           (join ('','' @ CHR 0x0A # indent lvl') (map (stringify sh lvl') vs)
            @ CHR 0x0A # indent lvl @ CHR '']'' # rest) = Some (vs, rest)"
  using assms
proof (induction vs arbitrary: f)
  case Nil
  then show ?case by simp
next
  case (Cons v ws)
  from Cons.prems(3) obtain f' where f: "f = Suc f'" and cv: "cost v \<le> f'"
    and cw: "sum_list (map (\<lambda>v. Suc (cost v)) ws) \<le> f'"
    by (cases f) auto
  have pv: "\<And>rest. follows_number rest \<Longrightarrow> parse_value rd f' (stringify sh lvl' v @ rest) = Some (v, rest)"
    using Cons.prems(1) [of v f'] cv by simp
  show ?case
  proof (cases ws)
    case Nil
    show ?thesis
      using pv [of "CHR 0x0A # indent lvl @ CHR '']'' # rest"]
      by (simp add: f Nil)
  next
    case (Cons w ws')
    have IH: "parse_elems rd f'
           (join ('','' @ CHR 0x0A # indent lvl') (map (stringify sh lvl') ws)
            @ CHR 0x0A # indent lvl @ CHR '']'' # rest) = Some (ws, rest)"
      using Cons.IH [of f'] Cons.prems(1) cw Cons by simp
    show ?thesis
      using pv [of "CHR '','' # CHR 0x0A # indent lvl' @
          join ('','' @ CHR 0x0A # indent lvl') (map (stringify sh lvl') ws)
          @ CHR 0x0A # indent lvl @ CHR '']'' # rest"] IH
      by (simp add: f Cons)
  qed
qed

lemma join_Cons: "ys \<noteq> [] \<Longrightarrow> join sep (x # ys) = x @ sep @ join sep ys"
  by (cases ys) simp_all

lemma parse_members_join:
  assumes "\<And>k v f rest. (k, v) \<in> set ms \<Longrightarrow> cost v \<le> f \<Longrightarrow> follows_number rest \<Longrightarrow>
             parse_value rd f (stringify sh lvl' v @ rest) = Some (v, rest)"
    and "ms \<noteq> []"
    and "sum_list (map (\<lambda>(k, v). Suc (cost v)) ms) \<le> f"
  shows "parse_members rd f
           (join ('','' @ CHR 0x0A # indent lvl')
              (map (\<lambda>(k, v). QuoteJSONString k @ '': '' @ stringify sh lvl' v) ms)
            @ CHR 0x0A # indent lvl @ CHR ''}'' # rest) = Some (ms, rest)"
  using assms
proof (induction ms arbitrary: f)
  case Nil
  then show ?case by simp
next
  case (Cons m ns)
  obtain k v where m: "m = (k, v)" by (cases m)
  from Cons.prems(3) obtain f' where f: "f = Suc f'" and cv: "cost v \<le> f'"
    and cw: "sum_list (map (\<lambda>(k, v). Suc (cost v)) ns) \<le> f'"
    by (cases f) (auto simp add: m)
  have pv: "\<And>rest. follows_number rest \<Longrightarrow> parse_value rd f' (stringify sh lvl' v @ rest) = Some (v, rest)"
    using Cons.prems(1) [of k v f'] cv by (simp add: m)
  have key: "\<And>t. parse_chars (concat (map quote_char k) @ CHR 0x22 # t) = Some (k, t)"
    by (rule parse_chars_quoted)
  define tail where "tail = CHR 0x0A # indent lvl @ CHR ''}'' # rest"
  define more where "more = join ('','' @ CHR 0x0A # indent lvl')
              (map (\<lambda>(k, v). QuoteJSONString k @ '': '' @ stringify sh lvl' v) ns)"
  show ?case
  proof (cases "ns = []")
    case True
    have "parse_value rd f' (stringify sh lvl' v @ tail) = Some (v, tail)"
      using pv [of tail] by (simp add: tail_def)
    moreover have "skip_ws tail = CHR ''}'' # rest"
      by (simp add: tail_def)
    ultimately have "parse_members rd (Suc f')
        (CHR 0x22 # concat (map quote_char k) @ CHR 0x22 # CHR '':'' # CHR 0x20 # stringify sh lvl' v @ tail)
        = Some ([(k, v)], rest)"
      by (simp add: key)
    then show ?thesis
      by (simp add: f True m QuoteJSONString_def tail_def)
  next
    case False
    have IH: "parse_members rd f' (more @ tail) = Some (ns, rest)"
      unfolding more_def tail_def
    proof (rule Cons.IH [OF _ False cw])
      fix k v f rest
      assume "(k, v) \<in> set ns" "cost v \<le> f" "follows_number rest"
      then show "parse_value rd f (stringify sh lvl' v @ rest) = Some (v, rest)"
        using Cons.prems(1) [of k v f rest] by simp
    qed
    have "parse_value rd f' (stringify sh lvl' v @ CHR '','' # CHR 0x0A # indent lvl' @ more @ tail)
        = Some (v, CHR '','' # CHR 0x0A # indent lvl' @ more @ tail)"
      using pv [of "CHR '','' # CHR 0x0A # indent lvl' @ more @ tail"] by simp
    then have "parse_members rd (Suc f')
        (CHR 0x22 # concat (map quote_char k) @ CHR 0x22 # CHR '':'' # CHR 0x20 # stringify sh lvl' v
           @ CHR '','' # CHR 0x0A # indent lvl' @ more @ tail)
        = Some ((k, v) # ns, rest)"
      using IH by (simp add: key)
    then show ?thesis
      using False by (simp add: f m QuoteJSONString_def join_Cons more_def tail_def)
  qed
qed

lemma join_first: "xs \<noteq> [] \<Longrightarrow> \<exists>t. join sep xs = hd xs @ t"
proof (cases xs)
  case Nil
  assume "xs \<noteq> []"
  with Nil show ?thesis by simp
next
  case (Cons x ys)
  then show ?thesis by (cases ys) auto
qed

lemma parse_value_stringify:
  assumes "\<forall>x \<in> set_json j. number_format_ok sh rd x" and "cost j \<le> f" and "follows_number rest"
  shows "parse_value rd f (stringify sh lvl j @ rest) = Some (j, rest)"
  using assms
proof (induction j arbitrary: f lvl rest)
  case JNull
  then obtain f' where "f = Suc f'" by (cases f) auto
  then show ?case by (simp add: skip_ws_def json_ws_def)
next
  case (JBool b)
  then obtain f' where "f = Suc f'" by (cases f) auto
  then show ?case by (simp add: skip_ws_def json_ws_def)
next
  case (JNum x)
  then obtain f' where "f = Suc f'" by (cases f) auto
  then show ?case using JNum.prems parse_number [of sh rd x rest f'] by simp
next
  case (JStr s)
  then obtain f' where "f = Suc f'" by (cases f) auto
  then show ?case using parse_string [of rd f' s rest] by simp
next
  case (JArr vs)
  from JArr.prems(2) obtain f' where f: "f = Suc f'"
    and fuel: "sum_list (map (\<lambda>v. Suc (cost v)) vs) \<le> f'"
    by (cases f) auto
  show ?case
  proof (cases "vs = []")
    case True
    then show ?thesis by (simp add: f)
  next
    case False
    have elems: "parse_elems rd f'
           (join ('','' @ CHR 0x0A # indent (Suc lvl)) (map (stringify sh (Suc lvl)) vs)
            @ CHR 0x0A # indent lvl @ CHR '']'' # rest) = Some (vs, rest)"
    proof (rule parse_elems_join [OF _ False fuel])
      fix v g r
      assume "v \<in> set vs" "cost v \<le> g" "follows_number r"
      then show "parse_value rd g (stringify sh (Suc lvl) v @ r) = Some (v, r)"
        using JArr.IH [of v g r "Suc lvl"] JArr.prems(1) by auto
    qed
    define body where "body =
        join ('','' @ CHR 0x0A # indent (Suc lvl)) (map (stringify sh (Suc lvl)) vs)"
    define R where "R = CHR 0x0A # indent (Suc lvl) @ body @ CHR 0x0A # indent lvl @ CHR '']'' # rest"
    have s1: "stringify sh lvl (JArr vs) @ rest = CHR ''['' # R"
      using False by (simp add: R_def body_def)
    have s3: "parse_elems rd f' R = Some (vs, rest)"
      using elems by (simp add: R_def body_def)
    from False obtain t where t: "body = stringify sh (Suc lvl) (hd vs) @ t"
      unfolding body_def
      using join_first [of "map (stringify sh (Suc lvl)) vs"] by (auto simp add: hd_map)
    have "\<forall>x \<in> set_json (hd vs). number_format_ok sh rd x"
      using JArr.prems(1) False by (cases vs) auto
    from stringify_head [OF this, of "Suc lvl"]
    obtain c r where cr: "stringify sh (Suc lvl) (hd vs) = c # r" "\<not> json_ws c" "c \<noteq> CHR '']''"
      by blast
    have s2: "skip_ws R = c # r @ t @ CHR 0x0A # indent lvl @ CHR '']'' # rest"
      using skip_ws_nonws [OF cr(2)] by (simp add: R_def t cr(1))
    show ?thesis
      unfolding s1 f using cr(3) by (simp add: s2 s3)
  qed
next
  case (JObj ms)
  from JObj.prems(2) obtain f' where f: "f = Suc f'"
    and fuel: "sum_list (map (\<lambda>(k, v). Suc (cost v)) ms) \<le> f'"
    by (cases f) auto
  show ?case
  proof (cases "ms = []")
    case True
    then show ?thesis by (simp add: f)
  next
    case False
    have members: "parse_members rd f'
           (join ('','' @ CHR 0x0A # indent (Suc lvl))
              (map (\<lambda>(k, v). QuoteJSONString k @ '': '' @ stringify sh (Suc lvl) v) ms)
            @ CHR 0x0A # indent lvl @ CHR ''}'' # rest) = Some (ms, rest)"
    proof (rule parse_members_join [OF _ False fuel])
      fix k v g r
      assume "(k, v) \<in> set ms" "cost v \<le> g" "follows_number r"
      then show "parse_value rd g (stringify sh (Suc lvl) v @ r) = Some (v, r)"
        using JObj.IH [of "(k, v)" v g r "Suc lvl"] JObj.prems(1) by force
    qed
    define body where "body = join ('','' @ CHR 0x0A # indent (Suc lvl))
            (map (\<lambda>(k, v). QuoteJSONString k @ '': '' @ stringify sh (Suc lvl) v) ms)"
    define R where "R = CHR 0x0A # indent (Suc lvl) @ body @ CHR 0x0A # indent lvl @ CHR ''}'' # rest"
    have s1: "stringify sh lvl (JObj ms) @ rest = CHR ''{'' # R"
      using False by (simp add: R_def body_def)
    have s3: "parse_members rd f' R = Some (ms, rest)"
      using members by (simp add: R_def body_def)
    from False obtain k v ns where ms: "ms = (k, v) # ns" by (cases ms) auto
    obtain t where t: "body = CHR 0x22 # t"
      unfolding body_def
      using join_first [of "map (\<lambda>(k, v). QuoteJSONString k @ '': '' @ stringify sh (Suc lvl) v) ms"]
      by (auto simp add: ms QuoteJSONString_def)
    have s2: "skip_ws R = CHR 0x22 # t @ CHR 0x0A # indent lvl @ CHR ''}'' # rest"
      by (simp add: R_def t)
    show ?thesis
      unfolding s1 f by (simp add: s2 s3)
  qed
qed

lemma join_length:
  assumes "\<forall>x \<in> set xs. c x \<le> length (g x)" and "sep \<noteq> []"
  shows "sum_list (map (\<lambda>x. Suc (c x)) xs) \<le> Suc (length (join sep (map g xs)))"
  using assms(1)
proof (induction xs)
  case Nil
  show ?case by simp
next
  case (Cons x ys)
  show ?case
  proof (cases "ys = []")
    case True
    with Cons.prems show ?thesis by simp
  next
    case False
    then have "join sep (map g (x # ys)) = g x @ sep @ join sep (map g ys)"
      by (simp add: join_Cons)
    moreover have "1 \<le> length sep" using assms(2) by (cases sep) simp_all
    ultimately show ?thesis using Cons by simp
  qed
qed

lemma cost_le_length:
  assumes "\<forall>x \<in> set_json j. number_format_ok sh rd x"
  shows "cost j \<le> length (stringify sh lvl j)"
  using assms
proof (induction j arbitrary: lvl)
  case (JNum x)
  then have "sh x \<noteq> []" by (simp add: number_format_ok_def)
  then show ?case by (cases "sh x") simp_all
next
  case (JStr s)
  show ?case by (simp add: QuoteJSONString_def)
next
  case (JArr vs)
  have "sum_list (map (\<lambda>v. Suc (cost v)) vs)
      \<le> Suc (length (join ('','' @ CHR 0x0A # indent (Suc lvl)) (map (stringify sh (Suc lvl)) vs)))"
    by (rule join_length) (use JArr in auto)
  then show ?case by simp
next
  case (JObj ms)
  have "sum_list (map (\<lambda>m. Suc (cost (snd m))) ms)
      \<le> Suc (length (join ('','' @ CHR 0x0A # indent (Suc lvl))
            (map (\<lambda>m. QuoteJSONString (fst m) @ '': '' @ stringify sh (Suc lvl) (snd m)) ms)))"
  proof (rule join_length)
    show "\<forall>m \<in> set ms. cost (snd m) \<le> length (QuoteJSONString (fst m) @ '': '' @ stringify sh (Suc lvl) (snd m))"
    proof
      fix m assume m: "m \<in> set ms"
      have "cost (snd m) \<le> length (stringify sh (Suc lvl) (snd m))"
        using JObj.IH [of m "snd m" "Suc lvl"] JObj.prems m by (cases m) force
      then show "cost (snd m) \<le> length (QuoteJSONString (fst m) @ '': '' @ stringify sh (Suc lvl) (snd m))"
        by simp
    qed
  qed simp
  then show ?case by (simp add: case_prod_unfold)
qed simp_all

lemma JSON_parse_stringify:
  assumes "\<forall>x \<in> set_json j. number_format_ok sh rd x"
  shows "JSON_parse rd (stringify sh 0 j) = Some j"
proof -
  have "parse_value rd (length (stringify sh 0 j)) (stringify sh 0 j @ []) = Some (j, [])"
    using assms cost_le_length [OF assms, of 0] by (intro parse_value_stringify) simp_all
  then show ?thesis by (simp add: JSON_parse_def skip_ws_def)
qed

lemma set_json_entry_object: "set_json (entry_object e) = set (entry_numbers e)"
  by (cases "entry_value e"; cases "entry_key e"; cases "coords e")
     (auto simp add: entry_object_def entry_numbers_def)

lemma type_tag_inject: "type_tag a = type_tag b \<Longrightarrow> a = b"
  by (cases a; cases b) (simp_all add: type_tag_def)

lemma entry_object_inject:
  fixes e e' :: "'n event_log_entry"
  assumes "entry_object e = entry_object e'"
  shows "e = e'"
proof -
  have "timestamp e = timestamp e'" "type_tag (entry_type e) = type_tag (entry_type e')"
    "entry_value e = entry_value e'" "entry_key e = entry_key e'" "coords e = coords e'"
    using assms by (auto simp add: entry_object_def split: option.splits)
  then show ?thesis by (cases e; cases e') (simp add: type_tag_inject)
qed

lemma digit_char_code: "d < 10 \<Longrightarrow> (of_char (digit_char d) :: nat) = 48 + d"
proof -
  assume "d < 10"
  then have "d = 0 \<or> d = 1 \<or> d = 2 \<or> d = 3 \<or> d = 4 \<or> d = 5 \<or> d = 6 \<or> d = 7 \<or> d = 8 \<or> d = 9"
    by arith
  then show ?thesis by (elim disjE) (simp_all add: digit_char_def)
qed

lemma digit_char_number: "d < 10 \<Longrightarrow> is_num_char (digit_char d) \<and> starts_number (digit_char d)"
proof -
  assume "d < 10"
  then have "d = 0 \<or> d = 1 \<or> d = 2 \<or> d = 3 \<or> d = 4 \<or> d = 5 \<or> d = 6 \<or> d = 7 \<or> d = 8 \<or> d = 9"
    by arith
  then show ?thesis
    by (elim disjE) (simp_all add: digit_char_def is_num_char_def starts_number_def)
qed

lemma toString_digits: "list_all (\<lambda>c. is_num_char c \<and> starts_number c) (toString n)"
proof (induction n rule: toString.induct)
  case (1 n)
  show ?case
  proof (cases "n < 10")
    case True
    then show ?thesis by (subst toString.simps) (simp add: digit_char_number)
  next
    case False
    then show ?thesis using 1 by (subst toString.simps) (simp add: digit_char_number)
  qed
qed

lemma read_digits_snoc:
  "d < 10 \<Longrightarrow> read_digits acc (s @ [digit_char d]) = map_option (\<lambda>a. 10 * a + d) (read_digits acc s)"
  by (induction s arbitrary: acc) (simp_all add: digit_char_code)

lemma read_digits_toString: "read_digits 0 (toString n) = Some n"
proof (induction n rule: toString.induct)
  case (1 n)
  show ?case
  proof (cases "n < 10")
    case True
    then show ?thesis by (subst toString.simps) (simp add: digit_char_code)
  next
    case False
    then show ?thesis using 1 by (subst toString.simps) (simp add: read_digits_snoc)
  qed
qed

lemma toString_not_Nil: "toString n \<noteq> []"
  by (subst toString.simps) simp

lemma number_format_nat: "number_format_ok toString read_nat n"
proof -
  obtain c t where ct: "toString n = c # t"
    using toString_not_Nil [of n] by (cases "toString n") auto
  have "list_all (\<lambda>c. is_num_char c \<and> starts_number c) (c # t)"
    using toString_digits [of n] by (simp add: ct)
  then have "starts_number c" "list_all is_num_char (c # t)"
    by (simp_all add: list_all_iff)
  then show ?thesis
    using read_digits_toString [of n] by (simp add: number_format_ok_def read_nat_def ct)
qed

text \<open>
  Claim C9.  For every logged sequence of events whose numbers the platform prints and
  reads back faithfully, parsing the export yields the array of the logged entries' objects:
  the same number of records, in the same order, each with the same fields and values.
  The objects determine the entries, and \<open>logEvent\<close> appends, so the order is the order of
  logging.
\<close>

theorem event_log_round_trip:
  assumes "\<forall>e \<in> set events. \<forall>x \<in> set (entry_numbers e). number_format_ok sh rd x"
  shows "JSON_parse rd (exportLog sh events) = Some (JArr (map entry_object events)) \<and>
         (\<forall>events'. JArr (map entry_object events') = JArr (map entry_object events)
            \<longrightarrow> events' = events) \<and>
         logEvent entry events = events @ [entry]"
proof (intro conjI allI impI)
  show "JSON_parse rd (exportLog sh events) = Some (JArr (map entry_object events))"
    unfolding exportLog_def
    using assms by (intro JSON_parse_stringify) (auto simp add: set_json_entry_object)
  show "events' = events" if "JArr (map entry_object events') = JArr (map entry_object events)" for events'
  proof -
    have "inj (entry_object :: 'a event_log_entry \<Rightarrow> 'a json)"
      by (rule injI) (rule entry_object_inject)
    then have "(map entry_object events' = map entry_object events) = (events' = events)"
      by (rule inj_map_eq_map)
    then show ?thesis using that by simp
  qed
  show "logEvent entry events = events @ [entry]" by (simp add: logEvent_def)
qed

theorem event_log_round_trip_witness:
  "number_format_ok toString read_nat (1893 :: nat) \<and>
   map timestamp example_log = [1251, 1250, 1893] \<and>
   JSON_parse read_nat (exportLog toString example_log) = Some (JArr (map entry_object example_log))"
proof -
  have ok: "\<forall>e \<in> set example_log. \<forall>x \<in> set (entry_numbers e). number_format_ok toString read_nat x"
    by (simp add: number_format_nat)
  have "map timestamp example_log = [1251, 1250, 1893]"
    by (simp add: example_log_def handleClick_def handleKeyDown_log_def handleChange_def logEvent_def)
  then show ?thesis
    using event_log_round_trip [OF ok] number_format_nat [of 1893] by blast
qed

end
